theory Spec2Isabelle
  imports Complex_Main
begin

section \<open>Rounding\<close>

text \<open>
  Both number systems of the strategy round every arithmetic result to a fixed number of
  significant digits, ties to even: Python's \<open>Decimal\<close> to 28 decimal digits (the
  default context), \<open>float64\<close> to 53 binary digits.  \<open>round_to b p emin x\<close> is the
  multiple of the quantum nearest to \<open>x\<close>; the quantum of \<open>x\<close> is \<open>b\<close> to the exponent of
  the leading digit of \<open>x\<close> minus \<open>p - 1\<close>, and never below \<open>b\<close> to \<open>emin\<close> (the subnormal
  range).
\<close>

definition round_half_even :: "real \<Rightarrow> int" where
  "round_half_even x =
     (let f = \<lfloor>x\<rfloor>; d = x - of_int f
      in if d < 1 / 2 then f else if 1 / 2 < d then f + 1
         else if even f then f else f + 1)"

definition quantum_exp :: "nat \<Rightarrow> nat \<Rightarrow> int \<Rightarrow> real \<Rightarrow> int" where
  "quantum_exp b p emin x = max (\<lfloor>log (real b) \<bar>x\<bar>\<rfloor> - int p + 1) emin"

definition round_to :: "nat \<Rightarrow> nat \<Rightarrow> int \<Rightarrow> real \<Rightarrow> real" where
  "round_to b p emin x =
     (if x = 0 then 0
      else real b powr of_int (quantum_exp b p emin x)
             * of_int (round_half_even (x / real b powr of_int (quantum_exp b p emin x))))"

section \<open>Decimal\<close>

text \<open>
  A finite \<open>Decimal\<close> is the real number it denotes (a \<open>Decimal\<close> holds its digits
  exactly, whatever their number).  Every arithmetic operation returns the exact result
  rounded to the 28 significant digits of the default context, ties to even; the
  smallest quantum of that context is \<open>10\<close> to \<open>Etiny = -1000026\<close>.  Comparisons and
  \<open>max\<close> are exact.  Outside the model: the special values (NaN, Infinity) and the
  \<open>Overflow\<close> that the context raises for a result of \<open>10\<close> to \<open>1000000\<close> or more.
\<close>

definition dec_round :: "real \<Rightarrow> real" where
  "dec_round x = round_to 10 28 (- 1000026) x"

definition dec_add :: "real \<Rightarrow> real \<Rightarrow> real" where
  "dec_add a b = dec_round (a + b)"

definition dec_sub :: "real \<Rightarrow> real \<Rightarrow> real" where
  "dec_sub a b = dec_round (a - b)"

definition dec_mul :: "real \<Rightarrow> real \<Rightarrow> real" where
  "dec_mul a b = dec_round (a * b)"

definition dec_div :: "real \<Rightarrow> real \<Rightarrow> real" where
  "dec_div a b = dec_round (a / b)"

section \<open>float64\<close>

text \<open>
  A \<open>float64\<close> is a finite real, an infinity or NaN.  Every operation returns the exact
  result rounded to 53 binary digits, ties to even, with the smallest quantum \<open>2\<close> to
  \<open>-1074\<close>; a rounded magnitude of \<open>2\<close> to \<open>1024\<close> or more is an infinity.  The library
  functions \<open>np.log\<close> and \<open>np.exp\<close> are not part of the repository: they are taken as the
  correctly rounded logarithm and exponential.  The sign of zero is outside the model.
\<close>

datatype npfloat = Fin real | PInf | NInf | NaN

definition fl :: "real \<Rightarrow> real" where
  "fl x = round_to 2 53 (- 1074) x"

definition rnd64 :: "real \<Rightarrow> npfloat" where
  "rnd64 x = (if 2 ^ 1024 \<le> \<bar>fl x\<bar> then (if 0 < x then PInf else NInf) else Fin (fl x))"

fun np_isnan :: "npfloat \<Rightarrow> bool" where
  "np_isnan NaN = True"
| "np_isnan _ = False"

text \<open>\<open>a <= b\<close>: every comparison with NaN is false.\<close>

fun np_le :: "npfloat \<Rightarrow> npfloat \<Rightarrow> bool" where
  "np_le (Fin a) (Fin b) = (a \<le> b)"
| "np_le NaN _ = False"
| "np_le _ NaN = False"
| "np_le NInf _ = True"
| "np_le _ PInf = True"
| "np_le PInf (Fin b) = False"
| "np_le (Fin a) NInf = False"
| "np_le PInf NInf = False"

fun np_neg :: "npfloat \<Rightarrow> npfloat" where
  "np_neg (Fin a) = Fin (- a)"
| "np_neg PInf = NInf"
| "np_neg NInf = PInf"
| "np_neg NaN = NaN"

fun np_add :: "npfloat \<Rightarrow> npfloat \<Rightarrow> npfloat" where
  "np_add (Fin a) (Fin b) = rnd64 (a + b)"
| "np_add NaN _ = NaN"
| "np_add _ NaN = NaN"
| "np_add PInf NInf = NaN"
| "np_add NInf PInf = NaN"
| "np_add PInf _ = PInf"
| "np_add _ PInf = PInf"
| "np_add NInf _ = NInf"
| "np_add _ NInf = NInf"

definition np_sub :: "npfloat \<Rightarrow> npfloat \<Rightarrow> npfloat" where
  "np_sub a b = np_add a (np_neg b)"

fun np_mul :: "npfloat \<Rightarrow> npfloat \<Rightarrow> npfloat" where
  "np_mul (Fin a) (Fin b) = rnd64 (a * b)"
| "np_mul NaN _ = NaN"
| "np_mul _ NaN = NaN"
| "np_mul (Fin a) PInf = (if a = 0 then NaN else if 0 < a then PInf else NInf)"
| "np_mul (Fin a) NInf = (if a = 0 then NaN else if 0 < a then NInf else PInf)"
| "np_mul PInf (Fin b) = (if b = 0 then NaN else if 0 < b then PInf else NInf)"
| "np_mul NInf (Fin b) = (if b = 0 then NaN else if 0 < b then NInf else PInf)"
| "np_mul PInf PInf = PInf"
| "np_mul NInf NInf = PInf"
| "np_mul PInf NInf = NInf"
| "np_mul NInf PInf = NInf"

fun np_div :: "npfloat \<Rightarrow> npfloat \<Rightarrow> npfloat" where
  "np_div (Fin a) (Fin b) =
     (if b \<noteq> 0 then rnd64 (a / b)
      else if a = 0 then NaN else if 0 < a then PInf else NInf)"
| "np_div NaN _ = NaN"
| "np_div _ NaN = NaN"
| "np_div (Fin a) _ = Fin 0"
| "np_div PInf (Fin b) = (if 0 \<le> b then PInf else NInf)"
| "np_div NInf (Fin b) = (if 0 \<le> b then NInf else PInf)"
| "np_div PInf PInf = NaN"
| "np_div PInf NInf = NaN"
| "np_div NInf PInf = NaN"
| "np_div NInf NInf = NaN"

fun np_log :: "npfloat \<Rightarrow> npfloat" where
  "np_log (Fin a) = (if 0 < a then rnd64 (ln a) else if a = 0 then NInf else NaN)"
| "np_log PInf = PInf"
| "np_log NInf = NaN"
| "np_log NaN = NaN"

fun np_exp :: "npfloat \<Rightarrow> npfloat" where
  "np_exp (Fin a) = rnd64 (exp a)"
| "np_exp PInf = PInf"
| "np_exp NInf = Fin 0"
| "np_exp NaN = NaN"

fun np_sqrt :: "npfloat \<Rightarrow> npfloat" where
  "np_sqrt (Fin a) = (if 0 \<le> a then rnd64 (sqrt a) else NaN)"
| "np_sqrt PInf = PInf"
| "np_sqrt NInf = NaN"
| "np_sqrt NaN = NaN"

text \<open>
  \<open>np.sum\<close> of a one-dimensional contiguous array is numpy's pairwise summation: fewer
  than 8 elements are added from left to right; up to 128 elements are added into 8
  accumulators that are then combined as a tree, the elements left over added one by one;
  a longer array is split in two.
\<close>

fun sum_loop :: "npfloat \<Rightarrow> npfloat list \<Rightarrow> npfloat" where
  "sum_loop res [] = res"
| "sum_loop res (a # as) = sum_loop (np_add res a) as"

function add_blocks :: "npfloat list \<Rightarrow> npfloat list \<Rightarrow> npfloat list \<times> npfloat list" where
  "add_blocks r xs =
     (if length xs < 8 then (r, xs)
      else add_blocks (map2 np_add r (take 8 xs)) (drop 8 xs))"
  by pat_completeness auto
termination
  by (relation "measure (\<lambda>(r, xs). length xs)") auto

definition tree8 :: "npfloat list \<Rightarrow> npfloat" where
  "tree8 r =
     np_add (np_add (np_add (r ! 0) (r ! 1)) (np_add (r ! 2) (r ! 3)))
            (np_add (np_add (r ! 4) (r ! 5)) (np_add (r ! 6) (r ! 7)))"

function pairwise_sum :: "npfloat list \<Rightarrow> npfloat" where
  "pairwise_sum xs =
     (let n = length xs
      in if n < 8 then sum_loop (Fin 0) xs
         else if n \<le> 128 then
           (case add_blocks (take 8 xs) (drop 8 xs) of
              (r, rest) \<Rightarrow> sum_loop (tree8 r) rest)
         else
           (let n2 = n div 2 - (n div 2) mod 8
            in np_add (pairwise_sum (take n2 xs)) (pairwise_sum (drop n2 xs))))"
  by pat_completeness auto
termination
  by (relation "measure length") (auto simp: Let_def)

definition np_sum :: "npfloat list \<Rightarrow> npfloat" where
  "np_sum xs = pairwise_sum xs"

text \<open>\<open>np.diff(a)\<close> is \<open>a[1:] - a[:-1]\<close>.\<close>

definition np_diff :: "npfloat list \<Rightarrow> npfloat list" where
  "np_diff xs = map2 np_sub (tl xs) (butlast xs)"

text \<open>
  \<open>np.std(a)\<close> with the default \<open>ddof = 0\<close>: the mean is the sum divided by the number
  of elements, the variance is the mean of the squared deviations, and a division by a
  zero count gives NaN (numpy only warns).
\<close>

definition np_mean :: "npfloat list \<Rightarrow> npfloat" where
  "np_mean xs = np_div (np_sum xs) (Fin (real (length xs)))"

definition np_std :: "npfloat list \<Rightarrow> npfloat" where
  "np_std xs =
     (let arrmean = np_mean xs;
          x = map (\<lambda>a. np_sub a arrmean) xs;
          x2 = map (\<lambda>a. np_mul a a) x
      in np_sqrt (np_div (np_sum x2) (Fin (real (length xs)))))"

text \<open>\<open>Decimal(x)\<close> of a finite float is exact; of an infinity or NaN it is a special
  value, which the model of \<open>Decimal\<close> does not have.\<close>

fun decimal_of_float :: "npfloat \<Rightarrow> real option" where
  "decimal_of_float (Fin a) = Some a"
| "decimal_of_float _ = None"

section \<open>The volatility estimator\<close>

text \<open>
  \<open>calculate_volatility\<close> (lines 79-87).  The argument is the array
  \<open>np.array([float(p) for p in self.ref_prices])\<close>; the literal \<open>0.0001\<close> is the float
  nearest to it.
\<close>

definition calculate_volatility :: "npfloat list \<Rightarrow> npfloat" where
  "calculate_volatility prices =
     (if list_ex (\<lambda>p. np_le p (Fin 0)) prices then rnd64 0.0001
      else
        let returns = np_diff (map np_log prices);
            volatility = np_std returns
        in if np_isnan volatility \<or> volatility = Fin 0 then rnd64 0.0001 else volatility)"

section \<open>The strategy\<close>

subsection \<open>Collaborators\<close>

text \<open>
  The types of the trading framework are not part of the repository.  They are modelled
  from the way the strategy uses them: an order candidate carries the six fields that
  \<open>create_proposal\<close> sets, an active order the two fields that \<open>cancel_all_orders\<close>
  reads, a fill event the four fields that \<open>did_fill_order\<close> reads.
\<close>

datatype trade_type = BUY | SELL | RANGE

datatype order_type = MARKET | LIMIT | LIMIT_MAKER

datatype price_type = BestBid | BestAsk | MidPrice | LastTrade

record order_candidate =
  oc_trading_pair :: string
  oc_is_maker :: bool
  oc_order_type :: order_type
  oc_order_side :: trade_type
  oc_amount :: real
  oc_price :: real

record active_order =
  ao_trading_pair :: string
  ao_client_order_id :: string

record order_filled_event =
  ev_trade_type :: trade_type
  ev_amount :: real
  ev_trading_pair :: string
  ev_price :: real

text \<open>
  The connector of \<open>self.exchange\<close> and the clock, as one tick sees them: the answers of
  \<open>get_price_by_type\<close>, \<open>get_balance\<close>, \<open>get_active_orders\<close> and
  \<open>budget_checker.adjust_candidates\<close>, and \<open>self.current_timestamp\<close>.
\<close>

record connector =
  get_price_by_type :: "string \<Rightarrow> price_type \<Rightarrow> real"
  get_balance :: "string \<Rightarrow> real"
  get_active_orders :: "string \<Rightarrow> active_order list"
  adjust_candidates :: "order_candidate list \<Rightarrow> bool \<Rightarrow> order_candidate list"
  current_timestamp :: real

text \<open>
  The calls a handler makes to the outside, in order.  A log line is recorded by what it
  reports, not by its text; the message of \<open>did_fill_order\<close> is recorded by its five
  parts.
\<close>

datatype call =
    Logger_info nat nat
  | Logger_warning
  | Cancel string string string
  | Adjust_candidates "order_candidate list" bool
  | Buy string string real order_type real
  | Sell string string real order_type real
  | Log_with_clock trade_type real string string real
  | Notify_hb_app_with_timestamp trade_type real string string real

subsection \<open>Class attributes and state\<close>

text \<open>
  The spreads and the order amount are Python float literals, so the floats nearest to
  \<open>0.01\<close>; \<open>order_refresh_time\<close> is the integer 30.  Timestamps are finite floats.
\<close>

definition bid_spread :: real where "bid_spread = fl 0.01"
definition ask_spread :: real where "ask_spread = fl 0.01"
definition order_refresh_time :: real where "order_refresh_time = 30"
definition order_amount :: real where "order_amount = fl 0.01"
definition trading_pair :: string where "trading_pair = ''BTC-USDT''"
definition exchange :: string where "exchange = ''binance_paper_trade''"
definition price_source :: price_type where "price_source = MidPrice"

text \<open>\<open>ref_prices = deque(maxlen=10)\<close>; \<open>create_timestamp = 0\<close>.\<close>

definition maxlen :: nat where "maxlen = 10"

record strategy =
  ref_prices :: "real list"
  create_timestamp :: real

definition CustomPMM :: strategy where
  "CustomPMM = \<lparr>ref_prices = [], create_timestamp = 0\<rparr>"

text \<open>\<open>deque.append\<close>: the element goes to the right end; a deque longer than its
  \<open>maxlen\<close> then drops its leftmost element.\<close>

definition deque_append :: "nat \<Rightarrow> 'a list \<Rightarrow> 'a \<Rightarrow> 'a list" where
  "deque_append n xs x = (let ys = xs @ [x] in if n < length ys then tl ys else ys)"

text \<open>\<open>str.split(sep)\<close> for a one-character separator.\<close>

fun split_on :: "char \<Rightarrow> string \<Rightarrow> string list" where
  "split_on sep [] = [[]]"
| "split_on sep (c # cs) =
     (if c = sep then [] # split_on sep cs
      else (case split_on sep cs of
              [] \<Rightarrow> [[c]]
            | w # ws \<Rightarrow> (c # w) # ws))"

subsection \<open>Quotes and orders\<close>

text \<open>\<open>create_proposal\<close> (lines 89-100), in \<open>Decimal\<close> arithmetic.\<close>

definition create_proposal ::
  "real \<Rightarrow> real \<Rightarrow> real \<Rightarrow> real \<Rightarrow> real \<Rightarrow> order_candidate list" where
  "create_proposal ref_price bid ask buy_amount sell_amount =
     (let buy_price = dec_mul ref_price (dec_sub 1 (dec_div bid 100));
          sell_price = dec_mul ref_price (dec_add 1 (dec_div ask 100));
          buy_order = \<lparr>oc_trading_pair = trading_pair, oc_is_maker = True,
                       oc_order_type = LIMIT, oc_order_side = BUY,
                       oc_amount = buy_amount, oc_price = buy_price\<rparr>;
          sell_order = \<lparr>oc_trading_pair = trading_pair, oc_is_maker = True,
                        oc_order_type = LIMIT, oc_order_side = SELL,
                        oc_amount = sell_amount, oc_price = sell_price\<rparr>
      in [buy_order, sell_order])"

text \<open>\<open>place_order\<close> (lines 110-116) and \<open>place_orders\<close> (lines 106-108).\<close>

definition place_order :: "string \<Rightarrow> order_candidate \<Rightarrow> call list" where
  "place_order connector_name order =
     (if oc_order_side order = SELL then
        [Sell connector_name (oc_trading_pair order) (oc_amount order)
           (oc_order_type order) (oc_price order)]
      else if oc_order_side order = BUY then
        [Buy connector_name (oc_trading_pair order) (oc_amount order)
           (oc_order_type order) (oc_price order)]
      else [])"

definition place_orders :: "order_candidate list \<Rightarrow> call list" where
  "place_orders proposal = concat (map (place_order exchange) proposal)"

text \<open>\<open>cancel_all_orders\<close> (lines 118-120).\<close>

definition cancel_all_orders :: "connector \<Rightarrow> call list" where
  "cancel_all_orders conn =
     map (\<lambda>order. Cancel exchange (ao_trading_pair order) (ao_client_order_id order))
       (get_active_orders conn exchange)"

subsection \<open>The tick\<close>

text \<open>Lines 36-40 of \<open>on_tick\<close>: the scale as a function of the volatility, in
  \<open>float64\<close> arithmetic.  \<open>-vol_diff * sensitivity\<close> negates first.\<close>

definition scale_of :: "npfloat \<Rightarrow> npfloat" where
  "scale_of volatility =
     (let target_vol = rnd64 0.005;
          sensitivity = Fin 100;
          vol_diff = np_sub volatility target_vol;
          sigmoid = np_div (Fin 1) (np_add (Fin 1) (np_exp (np_mul (np_neg vol_diff) sensitivity)))
      in np_sub (Fin 1.5) sigmoid)"

text \<open>
  Lines 41-43: the base amount and the two spreads are float products turned into
  \<open>Decimal\<close>, so their exact values.  \<open>None\<close> stands for a product that is not finite.
\<close>

definition scaled_quote :: "npfloat \<Rightarrow> (real \<times> real \<times> real) option" where
  "scaled_quote scale =
     (case (decimal_of_float (np_mul (Fin order_amount) scale),
            decimal_of_float (np_mul (Fin bid_spread) (np_sub (Fin 2) scale)),
            decimal_of_float (np_mul (Fin ask_spread) (np_sub (Fin 2) scale))) of
        (Some base_amount, Some dynamic_bid_spread, Some dynamic_ask_spread) \<Rightarrow>
          Some (base_amount, dynamic_bid_spread, dynamic_ask_spread)
      | _ \<Rightarrow> None)"

text \<open>Lines 59-61: the inventory skew from the value of the base balance and the total.\<close>

definition inventory_skew_of :: "real \<Rightarrow> real \<Rightarrow> real" where
  "inventory_skew_of btc_value total_value =
     (let target_ratio = 0.5;
          current_ratio = dec_div btc_value total_value
      in dec_sub current_ratio target_ratio)"

text \<open>Lines 63-65: the buy and the sell amount before the floor.\<close>

definition skew_amounts :: "real \<Rightarrow> real \<Rightarrow> real \<times> real" where
  "skew_amounts base_amount inventory_skew =
     (let skew_strength = 1.5;
          buy_amount = dec_mul base_amount (dec_sub 1.0 (dec_mul skew_strength inventory_skew));
          sell_amount = dec_mul base_amount (dec_add 1.0 (dec_mul skew_strength inventory_skew))
      in (buy_amount, sell_amount))"

text \<open>Lines 67-69: both amounts floored at \<open>min_order\<close>.\<close>

definition min_order :: real where "min_order = 0.0001"

definition floor_amounts :: "real \<times> real \<Rightarrow> real \<times> real" where
  "floor_amounts amounts =
     (case amounts of (buy_amount, sell_amount) \<Rightarrow>
        (max buy_amount min_order, max sell_amount min_order))"

text \<open>
  \<open>on_tick\<close> (lines 25-77) returns the strategy after the tick and the calls it made.
  Python goes on with whatever floats lines 35-43 produce; the model stops with
  \<open>Non_finite_float\<close> when one of the three products of lines 41-43 is not finite, a
  case that never arises (lemmas \<open>scaled_quote_total\<close> and \<open>on_tick_total\<close>).
  \<open>Unpack_error\<close> is the \<open>ValueError\<close> of \<open>base, quote = self.trading_pair.split("-")\<close>
  for a pair that does not split in two.
\<close>

datatype tick_error = Non_finite_float | Unpack_error

definition on_tick :: "connector \<Rightarrow> strategy \<Rightarrow> tick_error + strategy \<times> call list" where
  "on_tick conn self =
     (let ref_price = get_price_by_type conn trading_pair price_source;
          prices = deque_append maxlen (ref_prices self) ref_price;
          self1 = self\<lparr>ref_prices := prices\<rparr>
      in if length prices < maxlen then
           Inr (self1, [Logger_info (length prices) maxlen])
         else
           (let volatility = calculate_volatility (map rnd64 prices);
                scale = scale_of volatility
            in case scaled_quote scale of
                 Some (base_amount, dynamic_bid_spread, dynamic_ask_spread) \<Rightarrow>
                   (let mid_price = ref_price
                    in case split_on CHR ''-'' trading_pair of
                         [base, quote] \<Rightarrow>
                           (let btc_balance = get_balance conn base;
                                usdt_balance = get_balance conn quote;
                                btc_value = dec_mul btc_balance mid_price;
                                total_value = dec_add btc_value usdt_balance
                            in if total_value = 0 then Inr (self1, [Logger_warning])
                               else
                                 (let inventory_skew = inventory_skew_of btc_value total_value;
                                      (buy_amount, sell_amount) =
                                        floor_amounts (skew_amounts base_amount inventory_skew)
                                  in if create_timestamp self1 \<le> current_timestamp conn then
                                       (let cancels = cancel_all_orders conn;
                                            proposal =
                                              create_proposal mid_price dynamic_bid_spread
                                                dynamic_ask_spread buy_amount sell_amount;
                                            adjusted_proposal =
                                              adjust_candidates conn proposal True
                                        in Inr (self1\<lparr>create_timestamp :=
                                                   fl (current_timestamp conn
                                                         + order_refresh_time)\<rparr>,
                                                cancels @ [Adjust_candidates proposal True]
                                                  @ place_orders adjusted_proposal))
                                     else Inr (self1, [])))
                       | _ \<Rightarrow> Inl Unpack_error)
               | None \<Rightarrow> Inl Non_finite_float))"

text \<open>
  \<open>did_fill_order\<close> (lines 122-125).  \<open>round(d, 2)\<close> on a \<open>Decimal\<close> rounds half to
  even at two places.
\<close>

definition round2 :: "real \<Rightarrow> real" where
  "round2 x = of_int (round_half_even (x * 100)) / 100"

definition did_fill_order :: "order_filled_event \<Rightarrow> strategy \<Rightarrow> strategy \<times> call list" where
  "did_fill_order event self =
     (self,
      [Log_with_clock (ev_trade_type event) (round2 (ev_amount event))
         (ev_trading_pair event) exchange (round2 (ev_price event)),
       Notify_hb_app_with_timestamp (ev_trade_type event) (round2 (ev_amount event))
         (ev_trading_pair event) exchange (round2 (ev_price event))])"

subsection \<open>What a tick reads and computes\<close>

text \<open>
  Names for expressions of \<open>on_tick\<close>, used to state its properties: the window after
  line 28, the scale of lines 35-40, the total portfolio value of lines 52-53, and the
  proposal of line 74 as a function of the base amount and the spreads.
\<close>

definition tick_prices :: "connector \<Rightarrow> strategy \<Rightarrow> real list" where
  "tick_prices conn self =
     deque_append maxlen (ref_prices self) (get_price_by_type conn trading_pair price_source)"

definition tick_scale :: "connector \<Rightarrow> strategy \<Rightarrow> npfloat" where
  "tick_scale conn self = scale_of (calculate_volatility (map rnd64 (tick_prices conn self)))"

definition tick_total_value :: "connector \<Rightarrow> real" where
  "tick_total_value conn =
     dec_add (dec_mul (get_balance conn ''BTC'')
                (get_price_by_type conn trading_pair price_source))
       (get_balance conn ''USDT'')"

definition tick_proposal :: "connector \<Rightarrow> real \<times> real \<times> real \<Rightarrow> order_candidate list" where
  "tick_proposal conn quote =
     (case quote of (base_amount, dynamic_bid_spread, dynamic_ask_spread) \<Rightarrow>
        (let mid_price = get_price_by_type conn trading_pair price_source;
             btc_value = dec_mul (get_balance conn ''BTC'') mid_price;
             (buy_amount, sell_amount) =
               floor_amounts (skew_amounts base_amount
                 (inventory_skew_of btc_value (tick_total_value conn)))
         in create_proposal mid_price dynamic_bid_spread dynamic_ask_spread
              buy_amount sell_amount))"

text \<open>The calls that touch orders: cancel, budget adjustment, buy and sell.\<close>

fun order_call :: "call \<Rightarrow> bool" where
  "order_call (Cancel _ _ _) = True"
| "order_call (Adjust_candidates _ _) = True"
| "order_call (Buy _ _ _ _ _) = True"
| "order_call (Sell _ _ _ _ _) = True"
| "order_call _ = False"

subsection \<open>A concrete market\<close>

text \<open>A connector with constant answers, for concrete runs of the tick.\<close>

definition market_at :: "real \<Rightarrow> real \<Rightarrow> real \<Rightarrow> real \<Rightarrow> connector" where
  "market_at p btc usdt now =
     \<lparr>get_price_by_type = (\<lambda>pair kind. p),
      get_balance = (\<lambda>asset. if asset = ''BTC'' then btc
                              else if asset = ''USDT'' then usdt else 0),
      get_active_orders =
        (\<lambda>name. [\<lparr>ao_trading_pair = ''BTC-USDT'', ao_client_order_id = ''o1''\<rparr>]),
      adjust_candidates = (\<lambda>proposal all_or_none. proposal),
      current_timestamp = now\<rparr>"

section \<open>Properties of the arithmetic\<close>

section \<open>Properties of rounding\<close>

lemma round_half_even_error: "\<bar>of_int (round_half_even y) - y\<bar> \<le> 1 / 2"
  unfolding round_half_even_def Let_def by (auto simp: abs_if) linarith+

lemma round_half_even_of_int: "round_half_even (of_int n) = n"
  by (simp add: round_half_even_def)

lemma round_half_even_mono:
  assumes "x \<le> y"
  shows "round_half_even x \<le> round_half_even y"
proof (cases "\<lfloor>x\<rfloor> = \<lfloor>y\<rfloor>")
  case True
  then show ?thesis
    using assms unfolding round_half_even_def Let_def by (auto split: if_splits)
next
  case False
  with assms have lt: "\<lfloor>x\<rfloor> < \<lfloor>y\<rfloor>" by (simp add: floor_mono order.strict_iff_order)
  have "round_half_even x \<le> \<lfloor>x\<rfloor> + 1"
    unfolding round_half_even_def Let_def by auto
  moreover have "\<lfloor>y\<rfloor> \<le> round_half_even y"
    unfolding round_half_even_def Let_def by auto
  ultimately show ?thesis using lt by linarith
qed

lemma round_half_even_le: "y \<le> of_int m \<Longrightarrow> round_half_even y \<le> m"
  using round_half_even_mono [of y "of_int m"] by (simp add: round_half_even_of_int)

lemma round_half_even_ge: "of_int m \<le> y \<Longrightarrow> m \<le> round_half_even y"
  using round_half_even_mono [of "of_int m" y] by (simp add: round_half_even_of_int)

lemma round_half_even_minus: "round_half_even (- y) = - round_half_even y"
proof (cases "y \<in> \<int>")
  case True
  then obtain n where "y = of_int n" by (auto elim: Ints_cases)
  then show ?thesis by (simp add: round_half_even_of_int flip: of_int_minus)
next
  case False
  then have fl: "\<lfloor>- y\<rfloor> = - \<lfloor>y\<rfloor> - 1"
    by (metis ceiling_def floor_eq_iff ceiling_altdef Ints_of_int add.commute add.inverse_inverse  diff_minus_eq_add minus_diff_eq uminus_add_conv_diff)
  have d: "0 < y - of_int \<lfloor>y\<rfloor>" using False
    by (metis Ints_of_int diff_gt_0_iff_gt of_int_floor_le order.strict_iff_order)
  show ?thesis
    unfolding round_half_even_def Let_def fl using d
    by (auto simp: algebra_simps) 
qed

lemma powr_of_int_nonneg:
  assumes "0 < b" "0 \<le> n"
  shows "real b powr of_int n = of_int (int b ^ nat n)"
  using assms by (simp add: powr_real_of_int)

lemma powr_quotient:
  assumes "0 < b"
  shows "real b powr of_int j / real b powr of_int k = real b powr of_int (j - k)"
  using assms by (simp add: powr_diff)

lemma decade:
  assumes "1 < b" "x \<noteq> 0"
  shows "real b powr of_int \<lfloor>log (real b) \<bar>x\<bar>\<rfloor> \<le> \<bar>x\<bar>"
    and "\<bar>x\<bar> < real b powr of_int (\<lfloor>log (real b) \<bar>x\<bar>\<rfloor> + 1)"
proof -
  have "0 < \<bar>x\<bar>" "1 < real b" using assms by simp_all
  then have "real b powr of_int \<lfloor>log (real b) \<bar>x\<bar>\<rfloor> \<le> \<bar>x\<bar>
      \<and> \<bar>x\<bar> < real b powr of_int (\<lfloor>log (real b) \<bar>x\<bar>\<rfloor> + 1)"
    using floor_log_eq_powr_iff [of "\<bar>x\<bar>" "real b" "\<lfloor>log (real b) \<bar>x\<bar>\<rfloor>"] by simp
  then show "real b powr of_int \<lfloor>log (real b) \<bar>x\<bar>\<rfloor> \<le> \<bar>x\<bar>"
    and "\<bar>x\<bar> < real b powr of_int (\<lfloor>log (real b) \<bar>x\<bar>\<rfloor> + 1)" by simp_all
qed

lemma floor_log_decade:
  assumes "1 < b" "real b powr of_int e \<le> \<bar>x\<bar>" "\<bar>x\<bar> < real b powr of_int (e + 1)"
  shows "\<lfloor>log (real b) \<bar>x\<bar>\<rfloor> = e"
proof -
  have "0 < \<bar>x\<bar>" using assms(2) powr_gt_zero [of "real b" "of_int e"] assms(1) by linarith
  then show ?thesis
    using assms floor_log_eq_powr_iff [of "\<bar>x\<bar>" "real b" e] by simp
qed

lemma quantum_exp_decade:
  assumes "1 < b" "real b powr of_int e \<le> \<bar>x\<bar>" "\<bar>x\<bar> < real b powr of_int (e + 1)"
  shows "quantum_exp b p emin x = max (e - int p + 1) emin"
  by (simp add: quantum_exp_def floor_log_decade [OF assms])

lemma round_to_0 [simp]: "round_to b p emin 0 = 0"
  by (simp add: round_to_def)

lemma round_to_decade:
  assumes "1 < b" "real b powr of_int e \<le> \<bar>x\<bar>" "\<bar>x\<bar> < real b powr of_int (e + 1)"
  shows "round_to b p emin x =
           real b powr of_int (max (e - int p + 1) emin)
             * of_int (round_half_even (x / real b powr of_int (max (e - int p + 1) emin)))"
proof -
  have "x \<noteq> 0" using assms(2) powr_gt_zero [of "real b" "of_int e"] assms(1) by auto
  then show ?thesis by (simp add: round_to_def quantum_exp_decade [OF assms])
qed

lemma quantum_exp_minus: "quantum_exp b p emin (- x) = quantum_exp b p emin x"
  by (simp add: quantum_exp_def)

lemma round_to_minus: "round_to b p emin (- x) = - round_to b p emin x"
  by (simp add: round_to_def quantum_exp_minus round_half_even_minus)

text \<open>Rounding does not cross a multiple of the quantum.\<close>

lemma round_to_le_grid:
  assumes "1 < b" "x \<noteq> 0" "x \<le> real b powr of_int (quantum_exp b p emin x) * of_int m"
  shows "round_to b p emin x \<le> real b powr of_int (quantum_exp b p emin x) * of_int m"
proof -
  let ?q = "real b powr of_int (quantum_exp b p emin x)"
  have q: "0 < ?q" using assms(1) by simp
  then have "x / ?q \<le> of_int m" using assms(3) by (simp add: field_simps)
  then have "round_half_even (x / ?q) \<le> m" by (rule round_half_even_le)
  then have "of_int (round_half_even (x / ?q)) \<le> (of_int m :: real)" by simp
  with q have "?q * of_int (round_half_even (x / ?q)) \<le> ?q * of_int m"
    by (intro mult_left_mono) simp_all
  then show ?thesis using assms(2) by (simp add: round_to_def)
qed

lemma round_to_ge_grid:
  assumes "1 < b" "x \<noteq> 0" "real b powr of_int (quantum_exp b p emin x) * of_int m \<le> x"
  shows "real b powr of_int (quantum_exp b p emin x) * of_int m \<le> round_to b p emin x"
proof -
  let ?q = "real b powr of_int (quantum_exp b p emin x)"
  have q: "0 < ?q" using assms(1) by simp
  then have "of_int m \<le> x / ?q" using assms(3) by (simp add: field_simps)
  then have "m \<le> round_half_even (x / ?q)" by (rule round_half_even_ge)
  then have "(of_int m :: real) \<le> of_int (round_half_even (x / ?q))" by simp
  with q have "?q * of_int m \<le> ?q * of_int (round_half_even (x / ?q))"
    by (intro mult_left_mono) simp_all
  then show ?thesis using assms(2) by (simp add: round_to_def)
qed

text \<open>In particular it does not cross a power of the base at or above the quantum.\<close>

lemma round_to_le_power:
  assumes b: "1 < b" and x: "x \<noteq> 0" and le: "x \<le> real b powr of_int j"
    and j: "quantum_exp b p emin x \<le> j"
  shows "round_to b p emin x \<le> real b powr of_int j"
proof -
  let ?k = "quantum_exp b p emin x"
  have "real b powr of_int j = real b powr of_int ?k * real b powr of_int (j - ?k)"
    using b by (simp flip: powr_add)
  also have "real b powr of_int (j - ?k) = of_int (int b ^ nat (j - ?k))"
    using b j by (intro powr_of_int_nonneg) simp_all
  finally have eq: "real b powr of_int j = real b powr of_int ?k * of_int (int b ^ nat (j - ?k))" .
  show ?thesis
    using round_to_le_grid [OF b x, of p emin "int b ^ nat (j - ?k)"] le unfolding eq by simp
qed

lemma round_to_ge_power:
  assumes b: "1 < b" and x: "x \<noteq> 0" and le: "real b powr of_int j \<le> x"
    and j: "quantum_exp b p emin x \<le> j"
  shows "real b powr of_int j \<le> round_to b p emin x"
proof -
  let ?k = "quantum_exp b p emin x"
  have "real b powr of_int j = real b powr of_int ?k * real b powr of_int (j - ?k)"
    using b by (simp flip: powr_add)
  also have "real b powr of_int (j - ?k) = of_int (int b ^ nat (j - ?k))"
    using b j by (intro powr_of_int_nonneg) simp_all
  finally have eq: "real b powr of_int j = real b powr of_int ?k * of_int (int b ^ nat (j - ?k))" .
  show ?thesis
    using round_to_ge_grid [OF b x, of p emin "int b ^ nat (j - ?k)"] le unfolding eq by simp
qed

lemma round_to_nonneg:
  assumes "1 < b" "0 \<le> x"
  shows "0 \<le> round_to b p emin x"
proof (cases "x = 0")
  case True
  then show ?thesis by simp
next
  case False
  then show ?thesis
    using round_to_ge_grid [OF assms(1) False, of p emin 0] assms(2) by simp
qed

lemma quantum_exp_mono:
  assumes "1 < b" "0 < x" "x \<le> y"
  shows "quantum_exp b p emin x \<le> quantum_exp b p emin y"
proof -
  have "log (real b) \<bar>x\<bar> \<le> log (real b) \<bar>y\<bar>" using assms by simp
  then have "\<lfloor>log (real b) \<bar>x\<bar>\<rfloor> \<le> \<lfloor>log (real b) \<bar>y\<bar>\<rfloor>" by (rule floor_mono)
  then show ?thesis by (simp add: quantum_exp_def)
qed

lemma round_to_mono_pos:
  assumes b: "1 < b" and p: "0 < p" and x: "0 < x" and xy: "x \<le> y"
  shows "round_to b p emin x \<le> round_to b p emin y"
proof -
  let ?kx = "quantum_exp b p emin x" and ?ky = "quantum_exp b p emin y"
  let ?ex = "\<lfloor>log (real b) \<bar>x\<bar>\<rfloor>" and ?ey = "\<lfloor>log (real b) \<bar>y\<bar>\<rfloor>"
  have y: "0 < y" using x xy by simp
  have k: "?kx \<le> ?ky" using b x xy by (rule quantum_exp_mono)
  show ?thesis
  proof (cases "?kx = ?ky")
    case True
    have q: "0 < real b powr of_int ?ky" using b by simp
    then have "x / real b powr of_int ?ky \<le> y / real b powr of_int ?ky"
      using xy by (simp add: divide_right_mono)
    then have "round_half_even (x / real b powr of_int ?ky)
        \<le> round_half_even (y / real b powr of_int ?ky)" by (rule round_half_even_mono)
    then have "real b powr of_int ?ky * of_int (round_half_even (x / real b powr of_int ?ky))
        \<le> real b powr of_int ?ky * of_int (round_half_even (y / real b powr of_int ?ky))"
      using q by (intro mult_left_mono) simp_all
    then show ?thesis using x y True by (simp add: round_to_def)
  next
    case False
    with k have lt: "?kx < ?ky" by simp
    then have ky: "?ky = ?ey - int p + 1" and exy: "?ex < ?ey"
      by (auto simp: quantum_exp_def max_def split: if_splits)
    have kxe: "?kx \<le> ?ey" and kye: "?ky \<le> ?ey" using lt ky p by simp_all
    have "x < real b powr of_int (?ex + 1)" using decade(2) [of b x] b x by simp
    also have "\<dots> \<le> real b powr of_int ?ey" using exy b by (intro powr_mono) simp_all
    finally have "x \<le> real b powr of_int ?ey" by simp
    then have "round_to b p emin x \<le> real b powr of_int ?ey"
      using b x kxe by (intro round_to_le_power) simp_all
    also have "real b powr of_int ?ey \<le> y" using decade(1) [of b y] b y by simp
    then have "real b powr of_int ?ey \<le> round_to b p emin y"
      using b y kye by (intro round_to_ge_power) simp_all
    finally show ?thesis .
  qed
qed

lemma round_to_mono:
  assumes b: "1 < b" and p: "0 < p" and xy: "x \<le> y"
  shows "round_to b p emin x \<le> round_to b p emin y"
proof -
  consider "0 < x" | "x \<le> 0" "0 \<le> y" | "y < 0" by linarith
  then show ?thesis
  proof cases
    case 1
    with b p xy show ?thesis by (intro round_to_mono_pos)
  next
    case 2
    have "round_to b p emin x = - round_to b p emin (- x)" by (simp add: round_to_minus)
    moreover have "0 \<le> round_to b p emin (- x)" using b 2(1) by (intro round_to_nonneg) simp_all
    moreover have "0 \<le> round_to b p emin y" using b 2(2) by (rule round_to_nonneg)
    ultimately show ?thesis by linarith
  next
    case 3
    have "round_to b p emin (- y) \<le> round_to b p emin (- x)"
      using b p 3 xy by (intro round_to_mono_pos) simp_all
    then show ?thesis by (simp add: round_to_minus)
  qed
qed

text \<open>A number with at most \<open>p\<close> digits above the smallest quantum is its own rounding.\<close>

lemma round_to_representable:
  assumes b: "1 < b" and m: "\<bar>m\<bar> < int b ^ p" and k: "emin \<le> k"
  shows "round_to b p emin (of_int m * real b powr of_int k) = of_int m * real b powr of_int k"
proof (cases "m = 0")
  case True
  then show ?thesis by simp
next
  case False
  let ?x = "of_int m * real b powr of_int k"
  let ?e = "\<lfloor>log (real b) \<bar>?x\<bar>\<rfloor>" and ?kq = "quantum_exp b p emin ?x"
  have x0: "?x \<noteq> 0" using False b by simp
  have "real b powr of_int ?e \<le> \<bar>?x\<bar>" using decade(1) [OF b x0] .
  also have "\<bar>?x\<bar> = real_of_int \<bar>m\<bar> * real b powr of_int k" by (simp add: abs_mult)
  also have "\<dots> < real_of_int (int b ^ p) * real b powr of_int k"
    using m b by (intro mult_strict_right_mono) (simp_all del: of_int_power)
  also have "\<dots> = real b powr of_int (int p + k)"
    using b by (simp add: powr_add powr_realpow)
  finally have "of_int ?e < (of_int (int p + k) :: real)"
    using b by (simp add: powr_less_cancel_iff del: of_int_add)
  then have "?e < int p + k" by (simp only: of_int_less_iff)
  then have kq: "?kq \<le> k" using k by (simp add: quantum_exp_def)
  have "?x / real b powr of_int ?kq = of_int m * real b powr of_int (k - ?kq)"
    using b by (simp add: powr_diff)
  also have "real b powr of_int (k - ?kq) = of_int (int b ^ nat (k - ?kq))"
    using b kq by (intro powr_of_int_nonneg) simp_all
  finally have "?x / real b powr of_int ?kq = of_int (m * int b ^ nat (k - ?kq))" by simp
  then have "real b powr of_int ?kq * of_int (round_half_even (?x / real b powr of_int ?kq))
      = real b powr of_int ?kq * (?x / real b powr of_int ?kq)"
    by (simp only: round_half_even_of_int)
  also have "\<dots> = ?x" using b by simp
  finally show ?thesis using x0 by (simp add: round_to_def)
qed

text \<open>The error is at most half a quantum; in the normal range that is a relative error of
  half of \<open>b\<close> to \<open>1 - p\<close>.\<close>

lemma round_to_error:
  assumes "1 < b"
  shows "\<bar>round_to b p emin x - x\<bar> \<le> real b powr of_int (quantum_exp b p emin x) / 2"
proof (cases "x = 0")
  case True
  then show ?thesis by simp
next
  case False
  let ?q = "real b powr of_int (quantum_exp b p emin x)"
  have q: "0 < ?q" using assms by simp
  have "round_to b p emin x - x = ?q * (of_int (round_half_even (x / ?q)) - x / ?q)"
    using False q by (simp add: round_to_def algebra_simps)
  then have "\<bar>round_to b p emin x - x\<bar> = ?q * \<bar>of_int (round_half_even (x / ?q)) - x / ?q\<bar>"
    using q by (simp add: abs_mult)
  also have "\<dots> \<le> ?q * (1 / 2)"
    using q round_half_even_error [of "x / ?q"] by (intro mult_left_mono) simp_all
  finally show ?thesis by simp
qed

lemma round_to_relative_error:
  assumes b: "1 < b" and normal: "real b powr of_int (emin + int p - 1) \<le> \<bar>x\<bar>"
  shows "\<bar>round_to b p emin x - x\<bar> \<le> real b powr (1 - real p) / 2 * \<bar>x\<bar>"
proof -
  let ?e = "\<lfloor>log (real b) \<bar>x\<bar>\<rfloor>"
  have x0: "x \<noteq> 0" using normal powr_gt_zero [of "real b" "of_int (emin + int p - 1)"] b by auto
  have "\<bar>x\<bar> < real b powr of_int (?e + 1)" using decade(2) [OF b x0] .
  with normal have "real b powr of_int (emin + int p - 1) < real b powr of_int (?e + 1)"
    by linarith
  then have "of_int (emin + int p - 1) < (of_int (?e + 1) :: real)"
    using b by (simp add: powr_less_cancel_iff del: of_int_add of_int_diff)
  then have "emin + int p - 1 < ?e + 1" by (simp only: of_int_less_iff)
  then have kq: "quantum_exp b p emin x = ?e - int p + 1" by (simp add: quantum_exp_def)
  have "real b powr of_int (?e - int p + 1) = real b powr of_int ?e * real b powr (1 - real p)"
    using b by (simp flip: powr_add) (simp add: algebra_simps)
  also have "\<dots> \<le> \<bar>x\<bar> * real b powr (1 - real p)"
    using decade(1) [OF b x0] by (intro mult_right_mono) simp_all
  finally have "real b powr of_int (quantum_exp b p emin x) / 2
      \<le> real b powr (1 - real p) / 2 * \<bar>x\<bar>"
    unfolding kq by (simp add: mult.commute)
  with round_to_error [OF b, of p emin x] show ?thesis by linarith
qed

section \<open>Properties of the Decimal operations\<close>

lemma dec_round_0 [simp]: "dec_round 0 = 0"
  by (simp add: dec_round_def)

lemma dec_round_mono: "x \<le> y \<Longrightarrow> dec_round x \<le> dec_round y"
  unfolding dec_round_def by (rule round_to_mono) simp_all

lemma dec_round_nonneg: "0 \<le> x \<Longrightarrow> 0 \<le> dec_round x"
  unfolding dec_round_def by (rule round_to_nonneg) simp_all

lemma dec_round_representable:
  assumes "\<bar>m\<bar> < 10 ^ 28" "- 1000026 \<le> k"
  shows "dec_round (of_int m * 10 powr of_int k) = of_int m * 10 powr of_int k"
  using round_to_representable [of 10 m 28 "- 1000026" k] assms by (simp add: dec_round_def)

lemma dec_round_relative_error:
  assumes "10 powr (- 999999) \<le> \<bar>x\<bar>"
  shows "\<bar>dec_round x - x\<bar> \<le> 5 / 10 ^ 28 * \<bar>x\<bar>"
proof -
  have "real 10 powr of_int (- 1000026 + int 28 - 1) \<le> \<bar>x\<bar>" using assms by simp
  then have e: "\<bar>round_to 10 28 (- 1000026) x - x\<bar> \<le> real 10 powr (1 - real 28) / 2 * \<bar>x\<bar>"
    by (intro round_to_relative_error) simp_all
  have "(10::real) powr (- 27) = 1 / 10 ^ 27"
    using powr_minus_divide [of "10::real" 27] powr_realpow [of "10::real" 27] by simp
  then have c: "real 10 powr (1 - real 28) / 2 = 5 / 10 ^ 28" by simp
  from e [unfolded c] show ?thesis by (simp only: dec_round_def)
qed

text \<open>The rounding of a number given with its leading digit.\<close>

lemma dec_round_decade:
  assumes "10 powr of_int e \<le> \<bar>x\<bar>" "\<bar>x\<bar> < 10 powr of_int (e + 1)" "- 1000026 \<le> e - 27"
  shows "dec_round x = 10 powr of_int (e - 27) * of_int (round_half_even (x / 10 powr of_int (e - 27)))"
proof -
  have m: "max (e - int 28 + 1) (- 1000026) = e - 27" using assms(3) by simp
  have "round_to 10 28 (- 1000026) x =
      real 10 powr of_int (max (e - int 28 + 1) (- 1000026))
        * of_int (round_half_even (x / real 10 powr of_int (max (e - int 28 + 1) (- 1000026))))"
    using assms(1,2) by (intro round_to_decade) simp_all
  then show ?thesis unfolding m dec_round_def by simp
qed

section \<open>Properties of the float64 operations\<close>

lemma fl_0 [simp]: "fl 0 = 0"
  by (simp add: fl_def)

lemma fl_mono: "x \<le> y \<Longrightarrow> fl x \<le> fl y"
  unfolding fl_def by (rule round_to_mono) simp_all

lemma fl_nonneg: "0 \<le> x \<Longrightarrow> 0 \<le> fl x"
  unfolding fl_def by (rule round_to_nonneg) simp_all

lemma fl_minus: "fl (- x) = - fl x"
  by (simp add: fl_def round_to_minus)

lemma fl_representable:
  assumes "\<bar>m\<bar> < 2 ^ 53" "- 1074 \<le> k"
  shows "fl (of_int m * 2 powr of_int k) = of_int m * 2 powr of_int k"
  using round_to_representable [of 2 m 53 "- 1074" k] assms by (simp add: fl_def)

lemma fl_int:
  assumes "\<bar>m\<bar> < 2 ^ 53"
  shows "fl (of_int m) = of_int m"
  using fl_representable [of m 0] assms by simp

lemma fl_numeral [simp]: "fl 1 = 1" "fl 2 = 2" "fl 100 = 100" "fl 30 = 30"
  using fl_int [of 1] fl_int [of 2] fl_int [of 100] fl_int [of 30] by simp_all

lemma fl_halves [simp]: "fl (1 / 2) = 1 / 2" "fl (3 / 2) = 3 / 2"
proof -
  have "(2::real) powr (- 1) = 1 / 2" by (simp add: powr_minus_divide)
  then show "fl (1 / 2) = 1 / 2" "fl (3 / 2) = 3 / 2"
    using fl_representable [of 1 "- 1"] fl_representable [of 3 "- 1"] by simp_all
qed

lemma fl_power2:
  assumes "- 1074 \<le> k"
  shows "fl (2 powr of_int k) = 2 powr of_int k"
  using fl_representable [of 1 k] assms by simp

text \<open>A rounded value stays within bounds that are floats themselves.\<close>

lemma fl_bounds:
  assumes "lo \<le> x" "x \<le> hi" "fl lo = lo" "fl hi = hi"
  shows "lo \<le> fl x" "fl x \<le> hi"
  using fl_mono [OF assms(1)] fl_mono [OF assms(2)] assms(3,4) by simp_all

lemma rnd64_not_NaN [simp]: "rnd64 x \<noteq> NaN"
  by (simp add: rnd64_def)

lemma rnd64_finite:
  assumes "\<bar>fl x\<bar> < 2 ^ 1024"
  shows "rnd64 x = Fin (fl x)"
  using assms by (simp add: rnd64_def)

lemma rnd64_bounded:
  assumes "lo \<le> x" "x \<le> hi" "fl lo = lo" "fl hi = hi" "- (2 ^ 1024) < lo" "hi < 2 ^ 1024"
  shows "rnd64 x = Fin (fl x)"
proof -
  have "lo \<le> fl x" "fl x \<le> hi" using assms(1-4) by (rule fl_bounds)+
  then have "\<bar>fl x\<bar> < 2 ^ 1024" using assms(5,6) by (simp add: abs_if)
  then show ?thesis by (rule rnd64_finite)
qed

lemma rnd64_mono:
  assumes "x \<le> y"
  shows "np_le (rnd64 x) (rnd64 y)"
proof -
  have m: "fl x \<le> fl y" using assms by (rule fl_mono)
  have px: "0 < x \<Longrightarrow> 0 \<le> fl x" and ny: "y \<le> 0 \<Longrightarrow> fl y \<le> 0"
    using fl_nonneg [of x] fl_nonneg [of "- y"] by (simp_all add: fl_minus)
  show ?thesis
    using m assms px ny unfolding rnd64_def by (auto simp: abs_if split: if_splits)
qed

lemma pow2_neg: "(2::real) powr (- 8) = 1 / 256" "(2::real) powr (- 7) = 1 / 128"
  "(2::real) powr (- 6) = 1 / 64"
  by (simp_all add: powr_minus_divide)

lemma fl_small_powers [simp]: "fl (1 / 256) = 1 / 256" "fl (1 / 128) = 1 / 128"
  "fl (1 / 64) = 1 / 64"
  using fl_power2 [of "- 8"] fl_power2 [of "- 7"] fl_power2 [of "- 6"]
  by (simp_all add: pow2_neg)

lemma target_vol_float:
  "rnd64 (1 / 200) = Fin (fl (1 / 200))" "1 / 256 \<le> fl (1 / 200)" "fl (1 / 200) \<le> 1 / 128"
proof -
  show "1 / 256 \<le> fl (1 / 200)" "fl (1 / 200) \<le> 1 / 128"
    by (rule fl_bounds [of "1 / 256" "1 / 200" "1 / 128"]; simp)+
  then have "\<bar>fl (1 / 200)\<bar> < 2 ^ 1024" by (simp add: abs_if)
  then show "rnd64 (1 / 200) = Fin (fl (1 / 200))" by (rule rnd64_finite)
qed

text \<open>The logistic of lines 39: finite, between 0 and 1, and decreasing in the exponent.\<close>

lemma one_plus_float:
  assumes "0 \<le> x"
  shows "rnd64 (1 + x) = PInf \<or> (\<exists>y\<ge>1. rnd64 (1 + x) = Fin y)"
proof -
  have "fl 1 \<le> fl (1 + x)" using assms by (intro fl_mono) simp
  then have "1 \<le> fl (1 + x)" by simp
  then show ?thesis using assms by (auto simp: rnd64_def)
qed

lemma reciprocal_float:
  assumes "1 \<le> y"
  shows "rnd64 (1 / y) = Fin (fl (1 / y))" "0 \<le> fl (1 / y)" "fl (1 / y) \<le> 1"
proof -
  have r: "0 \<le> 1 / y" "1 / y \<le> 1" using assms by simp_all
  show "0 \<le> fl (1 / y)" using r(1) by (rule fl_nonneg)
  show "fl (1 / y) \<le> 1" using fl_mono [OF r(2)] by simp
  show "rnd64 (1 / y) = Fin (fl (1 / y))"
    by (rule rnd64_bounded [of 0 _ 1]) (use r in simp_all)
qed

lemma exp_float: "rnd64 (exp a) = PInf \<or> (\<exists>x\<ge>0. rnd64 (exp a) = Fin x)"
proof -
  have "0 \<le> fl (exp a)" by (intro fl_nonneg) simp
  then show ?thesis by (auto simp: rnd64_def)
qed

lemma sigmoid_float:
  assumes "\<not> np_isnan m"
  shows "\<exists>g. np_div (Fin 1) (np_add (Fin 1) (np_exp m)) = Fin g \<and> 0 \<le> g \<and> g \<le> 1"
proof -
  have e: "np_exp m = PInf \<or> (\<exists>x\<ge>0. np_exp m = Fin x)"
    using assms exp_float by (cases m) auto
  have "np_add (Fin 1) (np_exp m) = PInf \<or> (\<exists>y\<ge>1. np_add (Fin 1) (np_exp m) = Fin y)"
  proof (cases "np_exp m")
    case (Fin x)
    with e have "0 \<le> x" by simp
    then show ?thesis using Fin one_plus_float [of x] by simp
  qed (use e in simp_all)
  then show ?thesis
  proof
    assume "np_add (Fin 1) (np_exp m) = PInf"
    then show ?thesis by simp
  next
    assume "\<exists>y\<ge>1. np_add (Fin 1) (np_exp m) = Fin y"
    then obtain y where y: "1 \<le> y" "np_add (Fin 1) (np_exp m) = Fin y" by blast
    then show ?thesis using reciprocal_float [OF y(1)] by auto
  qed
qed

lemma exp_float_nonneg: "np_le (Fin 0) (rnd64 (exp a))" "np_le (rnd64 (exp a)) PInf"
proof -
  from exp_float [of a] show "np_le (Fin 0) (rnd64 (exp a))"
  proof
    assume "rnd64 (exp a) = PInf"
    then show ?thesis by simp
  next
    assume "\<exists>x\<ge>0. rnd64 (exp a) = Fin x"
    then obtain x where "0 \<le> x" "rnd64 (exp a) = Fin x" by blast
    then show ?thesis by simp
  qed
  show "np_le (rnd64 (exp a)) PInf" by (cases "rnd64 (exp a)") simp_all
qed

lemma exp_float_mono:
  assumes "np_le m m'"
  shows "np_le (np_exp m) (np_exp m')"
  using assms by (cases m; cases m') (simp_all add: rnd64_mono exp_float_nonneg)

lemma one_plus_float_mono:
  assumes "np_le e e'" "np_le (Fin 0) e"
  shows "np_le (np_add (Fin 1) e) (np_add (Fin 1) e')"
proof -
  have i: "np_le (rnd64 (1 + x)) PInf" for x
    by (cases "rnd64 (1 + x)") simp_all
  show ?thesis
    using assms i by (cases e; cases e') (simp_all add: rnd64_mono)
qed

lemma reciprocal_float_antimono:
  assumes "np_le s s'" "np_le (Fin 1) s"
  shows "np_le (np_div (Fin 1) s') (np_div (Fin 1) s)"
proof (cases s)
  case (Fin y)
  with assms(2) have y: "1 \<le> y" by simp
  show ?thesis
  proof (cases s')
    case (Fin y')
    with assms(1) \<open>s = Fin y\<close> have "y \<le> y'" by simp
    then have "1 / y' \<le> 1 / y" using y by (simp add: frac_le)
    then show ?thesis using Fin \<open>s = Fin y\<close> y \<open>y \<le> y'\<close> by (simp add: rnd64_mono)
  next
    case PInf
    then show ?thesis using \<open>s = Fin y\<close> y reciprocal_float [OF y] by simp
  qed (use assms Fin in simp_all)
next
  case PInf
  with assms(1) show ?thesis by (cases s') simp_all
qed (use assms in simp_all)

lemma sigmoid_float_mono:
  assumes "np_le m m'"
  shows "np_le (np_div (Fin 1) (np_add (Fin 1) (np_exp m')))
           (np_div (Fin 1) (np_add (Fin 1) (np_exp m)))"
proof -
  have nn: "np_le (Fin 0) (np_exp m)"
    using assms by (cases m; cases m') (simp_all add: exp_float_nonneg)
  have e: "np_le (np_exp m) (np_exp m')" using assms by (rule exp_float_mono)
  have s: "np_le (np_add (Fin 1) (np_exp m)) (np_add (Fin 1) (np_exp m'))"
    using e nn by (rule one_plus_float_mono)
  have "np_le (Fin 1) (np_add (Fin 1) (np_exp m))"
  proof (cases "np_exp m")
    case (Fin x)
    with nn have "0 \<le> x" by simp
    then show ?thesis using Fin one_plus_float [of x] by auto
  qed (use nn in simp_all)
  with s show ?thesis by (rule reciprocal_float_antimono)
qed

section \<open>Properties of the scale\<close>

lemma np_isnan_rnd64 [simp]: "\<not> np_isnan (rnd64 x)"
  by (cases "rnd64 x") simp_all

lemma np_isnan_iff: "np_isnan a \<longleftrightarrow> a = NaN"
  by (cases a) simp_all

lemma np_sub_Fin: "np_sub (Fin a) (Fin b) = rnd64 (a - b)"
  by (simp add: np_sub_def)

lemma np_sub_not_nan: "\<not> np_isnan v \<Longrightarrow> \<not> np_isnan (np_sub v (Fin t))"
  by (cases v) (simp_all add: np_sub_def)

lemma np_neg_not_nan: "\<not> np_isnan v \<Longrightarrow> \<not> np_isnan (np_neg v)"
  by (cases v) simp_all

lemma np_mul_pos_not_nan: "\<not> np_isnan v \<Longrightarrow> 0 < c \<Longrightarrow> \<not> np_isnan (np_mul v (Fin c))"
  by (cases v) simp_all

lemma np_le_not_nan: "np_le a b \<Longrightarrow> \<not> np_isnan a \<and> \<not> np_isnan b"
  by (cases a; cases b) simp_all

lemma np_sub_mono: "np_le v v' \<Longrightarrow> np_le (np_sub v (Fin t)) (np_sub v' (Fin t))"
proof (cases v; cases v')
  fix a a' assume "np_le v v'" "v = Fin a" "v' = Fin a'"
  then show ?thesis by (simp add: np_sub_Fin rnd64_mono)
next
  fix a assume "v = Fin a" "v' = PInf"
  then show ?thesis by (cases "rnd64 (a - t)") (simp_all add: np_sub_Fin, simp_all add: np_sub_def)
next
  fix a' assume "v = NInf" "v' = Fin a'"
  then show ?thesis by (cases "rnd64 (a' - t)") (simp_all add: np_sub_Fin, simp_all add: np_sub_def)
qed (simp_all add: np_sub_def)

lemma np_neg_antimono: "np_le a b \<Longrightarrow> np_le (np_neg b) (np_neg a)"
  by (cases a; cases b) simp_all

lemma np_mul_pos_mono:
  assumes "np_le a b" "0 < c"
  shows "np_le (np_mul a (Fin c)) (np_mul b (Fin c))"
proof (cases a; cases b)
  fix x y assume "a = Fin x" "b = Fin y"
  with assms show ?thesis by (simp add: rnd64_mono)
next
  fix x assume "a = Fin x" "b = PInf"
  with assms show ?thesis by (cases "rnd64 (x * c)") simp_all
next
  fix y assume "a = NInf" "b = Fin y"
  with assms show ?thesis by (cases "rnd64 (y * c)") simp_all
qed (use assms in simp_all)

lemma scale_of_eq:
  "scale_of v =
     np_sub (Fin (3 / 2))
       (np_div (Fin 1) (np_add (Fin 1)
          (np_exp (np_mul (np_neg (np_sub v (Fin (fl (1 / 200))))) (Fin 100)))))"
  by (simp add: scale_of_def Let_def target_vol_float(1))

lemma scale_from_sigmoid:
  assumes "0 \<le> g" "g \<le> 1"
  shows "np_sub (Fin (3 / 2)) (Fin g) = Fin (fl (3 / 2 - g))" "1 / 2 \<le> fl (3 / 2 - g)"
    "fl (3 / 2 - g) \<le> 3 / 2"
proof -
  have r: "1 / 2 \<le> 3 / 2 - g" "3 / 2 - g \<le> 3 / 2" using assms by simp_all
  show "1 / 2 \<le> fl (3 / 2 - g)" "fl (3 / 2 - g) \<le> 3 / 2"
    using fl_bounds [OF r] by simp_all
  have "rnd64 (3 / 2 - g) = Fin (fl (3 / 2 - g))"
    by (rule rnd64_bounded [OF r]) simp_all
  then show "np_sub (Fin (3 / 2)) (Fin g) = Fin (fl (3 / 2 - g))" by (simp add: np_sub_Fin)
qed

lemma scale_of_range:
  assumes "\<not> np_isnan v"
  shows "\<exists>s. scale_of v = Fin s \<and> 1 / 2 \<le> s \<and> s \<le> 3 / 2"
proof -
  let ?m = "np_mul (np_neg (np_sub v (Fin (fl (1 / 200))))) (Fin 100)"
  have "\<not> np_isnan ?m"
    using assms by (intro np_mul_pos_not_nan np_neg_not_nan np_sub_not_nan) simp_all
  then obtain g where g: "np_div (Fin 1) (np_add (Fin 1) (np_exp ?m)) = Fin g" "0 \<le> g" "g \<le> 1"
    using sigmoid_float by blast
  show ?thesis
    unfolding scale_of_eq g(1) using scale_from_sigmoid [OF g(2,3)] by blast
qed

lemma scale_of_antimono:
  assumes "np_le v v'"
  shows "np_le (scale_of v') (scale_of v)"
proof -
  let ?m = "\<lambda>v. np_mul (np_neg (np_sub v (Fin (fl (1 / 200))))) (Fin 100)"
  let ?g = "\<lambda>v. np_div (Fin 1) (np_add (Fin 1) (np_exp (?m v)))"
  have "\<not> np_isnan v" "\<not> np_isnan v'" using np_le_not_nan [OF assms] by simp_all
  then have nn: "\<not> np_isnan (?m v)" "\<not> np_isnan (?m v')"
    by (intro np_mul_pos_not_nan np_neg_not_nan np_sub_not_nan; simp)+
  have "np_le (?m v') (?m v)"
    using assms by (intro np_mul_pos_mono np_neg_antimono np_sub_mono) simp_all
  then have le: "np_le (?g v) (?g v')" by (rule sigmoid_float_mono)
  obtain g where g: "?g v = Fin g" "0 \<le> g" "g \<le> 1" using sigmoid_float [OF nn(1)] by blast
  obtain g' where g': "?g v' = Fin g'" "0 \<le> g'" "g' \<le> 1" using sigmoid_float [OF nn(2)] by blast
  from le have "g \<le> g'" by (simp add: g g')
  then have "fl (3 / 2 - g') \<le> fl (3 / 2 - g)" by (intro fl_mono) simp
  then show ?thesis
    unfolding scale_of_eq g(1) g'(1)
    by (simp add: scale_from_sigmoid(1) [OF g(2,3)] scale_from_sigmoid(1) [OF g'(2,3)])
qed

lemma scale_of_target: "scale_of (rnd64 (1 / 200)) = Fin 1"
proof -
  have "rnd64 0 = Fin 0" "rnd64 1 = Fin 1" "rnd64 2 = Fin 2" "rnd64 (1 / 2) = Fin (1 / 2)"
    by (simp_all add: rnd64_def)
  then show ?thesis
    by (simp add: scale_of_eq target_vol_float(1) np_sub_Fin)
qed

lemma round_half_even_near:
  assumes "0 \<le> d" "d < 1 / 2"
  shows "round_half_even (of_int n + d) = n"
proof -
  have "\<lfloor>of_int n + d\<rfloor> = n" using assms by (simp add: floor_unique)
  then show ?thesis using assms by (simp add: round_half_even_def)
qed

lemma fl_one_plus_tiny:
  assumes "0 \<le> x" "x \<le> 2 powr (- 54)"
  shows "fl (1 + x) = 1"
proof -
  have p54: "(2::real) powr (- 54) = 1 / 2 ^ 54" and p52: "(2::real) powr (- 52) = 1 / 2 ^ 52"
    by (simp_all add: powr_minus_divide)
  have "fl (1 + 2 powr (- 54)) = 1"
  proof -
    let ?y = "1 + (2::real) powr (- 54)"
    have d: "real 2 powr of_int 0 \<le> \<bar>?y\<bar>" "\<bar>?y\<bar> < real 2 powr of_int (0 + 1)"
      by (simp_all add: p54)
    have m: "max (0 - int 53 + 1) (- 1074) = - 52" by simp
    have q: "?y / 2 powr (- 52) = of_int (2 ^ 52) + 1 / 4" by (simp add: p54 p52 field_simps)
    have "round_half_even (?y / 2 powr (- 52)) = 2 ^ 52"
      unfolding q by (rule round_half_even_near) simp_all
    then have "real 2 powr of_int (- 52) * of_int (round_half_even (?y / real 2 powr of_int (- 52))) = 1"
      by (simp add: p52)
    then show ?thesis using round_to_decade [of 2 0 ?y 53 "- 1074", OF _ d] unfolding m fl_def by simp
  qed
  moreover have "fl 1 \<le> fl (1 + x)" "fl (1 + x) \<le> fl (1 + 2 powr (- 54))"
    using assms by (intro fl_mono; simp)+
  ultimately show ?thesis by simp
qed

lemma exp_minus_64:
  fixes m :: real
  assumes "m \<le> - 64"
  shows "exp m \<le> 2 powr (- 54)"
proof -
  note assms
  then have "exp m \<le> exp (- 64 :: real)" by simp
  also have "exp (- 64 :: real) = 1 / exp 1 ^ 64"
    using exp_of_nat_mult [of 64 "1::real"] by (simp add: exp_minus inverse_eq_divide)
  also have "\<dots> \<le> 1 / 2 ^ 64"
  proof -
    have "(2::real) \<le> exp 1" using exp_ge_add_one_self [of "1::real"] by simp
    then have "(2::real) ^ 64 \<le> exp 1 ^ 64" by (intro power_mono) simp_all
    then show ?thesis by (intro divide_left_mono) simp_all
  qed
  also have "\<dots> \<le> 2 powr (- 54)" by (simp add: powr_minus_divide)
  finally show ?thesis .
qed

lemma fl_saturation_constants [simp]:
  "fl (127 / 128) = 127 / 128" "fl 1024 = 1024" "fl 64 = 64" "fl 131072 = 131072"
  "fl (3 / 128) = 3 / 128"
proof -
  show "fl (127 / 128) = 127 / 128" "fl (3 / 128) = 3 / 128"
    using fl_representable [of 127 "- 7"] fl_representable [of 3 "- 7"] by (simp_all add: pow2_neg)
  show "fl 1024 = 1024" "fl 64 = 64" "fl 131072 = 131072"
    using fl_int [of 1024] fl_int [of 64] fl_int [of 131072] by simp_all
qed

lemma fl_pow54: "fl (2 powr (- 54)) = 2 powr (- 54)"
  using fl_power2 [of "- 54"] by (simp only: of_int_minus of_int_numeral)

text \<open>For a volatility between 1 and 1024 the exponential is below half an ulp of 1, and
  the scale is exactly one half.\<close>

lemma scale_of_saturated:
  assumes "1 \<le> v" "v \<le> 1024"
  shows "scale_of (Fin v) = Fin (1 / 2)"
proof -
  let ?t = "fl (1 / 200)"
  have d: "127 / 128 \<le> v - ?t" "v - ?t \<le> 1024"
    using assms target_vol_float(2,3) by simp_all
  have fd: "127 / 128 \<le> fl (v - ?t)" "fl (v - ?t) \<le> 1024"
    using fl_bounds [OF d] by simp_all
  have vd: "np_sub (Fin v) (Fin ?t) = Fin (fl (v - ?t))"
    unfolding np_sub_Fin by (rule rnd64_bounded [OF d]) simp_all
  have m: "- 131072 \<le> - fl (v - ?t) * 100" "- fl (v - ?t) * 100 \<le> - 64"
    using fd by simp_all
  have fm: "fl (- fl (v - ?t) * 100) \<le> - 64"
    using fl_bounds(2) [OF m] by (simp add: fl_minus)
  define m where "m = fl (- fl (v - ?t) * 100)"
  have vm: "np_mul (np_neg (Fin (fl (v - ?t)))) (Fin 100) = Fin m"
    using rnd64_bounded [OF m] by (simp add: fl_minus m_def)
  define e where "e = fl (exp m)"
  have e: "0 \<le> exp m" "exp m \<le> 2 powr (- 54)"
    using exp_minus_64 [of m] fm by (simp_all add: m_def)
  have fe: "0 \<le> e" "e \<le> 2 powr (- 54)"
    unfolding e_def by (rule fl_bounds [OF e fl_0 fl_pow54])+
  have "\<bar>fl (exp m)\<bar> < 2 ^ 1024" using fe by (simp add: powr_minus_divide e_def)
  then have ve: "np_exp (Fin m) = Fin e" by (simp add: rnd64_finite e_def)
  have one: "fl (1 + e) = 1" using fe by (rule fl_one_plus_tiny)
  have vs: "np_add (Fin 1) (Fin e) = Fin 1"
    using one by (simp add: rnd64_def)
  have vq: "np_div (Fin 1) (Fin 1) = Fin 1" by (simp add: rnd64_def)
  have vr: "np_sub (Fin (3 / 2)) (Fin 1) = Fin (1 / 2)" by (simp add: np_sub_Fin rnd64_def)
  show ?thesis
    unfolding scale_of_eq vd vm ve vs vq vr ..
qed

lemma float_literal_001: "1 / 128 \<le> fl (1 / 100)" "fl (1 / 100) \<le> 1 / 64"
  by (rule fl_bounds [of "1 / 128" "1 / 100" "1 / 64"]; simp)+

lemma scaled_quote_scale:
  assumes "1 / 2 \<le> s" "s \<le> 3 / 2"
  shows "scaled_quote (Fin s) =
           Some (fl (order_amount * s), fl (bid_spread * fl (2 - s)), fl (ask_spread * fl (2 - s)))"
    and "1 / 256 \<le> fl (order_amount * s)" "fl (order_amount * s) \<le> 3 / 128"
    and "1 / 256 \<le> fl (bid_spread * fl (2 - s))" "fl (bid_spread * fl (2 - s)) \<le> 3 / 128"
    and "1 / 256 \<le> fl (ask_spread * fl (2 - s))" "fl (ask_spread * fl (2 - s)) \<le> 3 / 128"
proof -
  have c: "1 / 128 \<le> fl (1 / 100)" "fl (1 / 100) \<le> 1 / 64" by (rule float_literal_001)+
  have prod: "1 / 256 \<le> fl (1 / 100) * x \<and> fl (1 / 100) * x \<le> 3 / 128"
    if "1 / 2 \<le> x" "x \<le> 3 / 2" for x
  proof
    have "1 / 128 * (1 / 2) \<le> fl (1 / 100) * x"
      using c that by (intro mult_mono) simp_all
    then show "1 / 256 \<le> fl (1 / 100) * x" by simp
    have "fl (1 / 100) * x \<le> 1 / 64 * (3 / 2)"
      using c that by (intro mult_mono) simp_all
    then show "fl (1 / 100) * x \<le> 3 / 128" by simp
  qed
  have r: "1 / 2 \<le> 2 - s" "2 - s \<le> 3 / 2" using assms by simp_all
  have fr: "1 / 2 \<le> fl (2 - s)" "fl (2 - s) \<le> 3 / 2" using fl_bounds [OF r] by simp_all
  have sub: "np_sub (Fin 2) (Fin s) = Fin (fl (2 - s))"
    unfolding np_sub_Fin by (rule rnd64_bounded [OF r]) simp_all
  note p1 = prod [OF assms] and p2 = prod [OF fr]
  have b1: "1 / 256 \<le> fl (fl (1 / 100) * s)" "fl (fl (1 / 100) * s) \<le> 3 / 128"
    using fl_bounds [of "1 / 256" "fl (1 / 100) * s" "3 / 128"] p1 by simp_all
  have b2: "1 / 256 \<le> fl (fl (1 / 100) * fl (2 - s))" "fl (fl (1 / 100) * fl (2 - s)) \<le> 3 / 128"
    using fl_bounds [of "1 / 256" "fl (1 / 100) * fl (2 - s)" "3 / 128"] p2 by simp_all
  have m1: "rnd64 (fl (1 / 100) * s) = Fin (fl (fl (1 / 100) * s))"
    by (rule rnd64_bounded [of "1 / 256" _ "3 / 128"]) (use p1 in simp_all)
  have m2: "rnd64 (fl (1 / 100) * fl (2 - s)) = Fin (fl (fl (1 / 100) * fl (2 - s)))"
    by (rule rnd64_bounded [of "1 / 256" _ "3 / 128"]) (use p2 in simp_all)
  show "scaled_quote (Fin s) =
      Some (fl (order_amount * s), fl (bid_spread * fl (2 - s)), fl (ask_spread * fl (2 - s)))"
    by (simp add: scaled_quote_def sub m1 m2 order_amount_def bid_spread_def ask_spread_def)
  show "1 / 256 \<le> fl (order_amount * s)" "fl (order_amount * s) \<le> 3 / 128"
    "1 / 256 \<le> fl (bid_spread * fl (2 - s))" "fl (bid_spread * fl (2 - s)) \<le> 3 / 128"
    "1 / 256 \<le> fl (ask_spread * fl (2 - s))" "fl (ask_spread * fl (2 - s)) \<le> 3 / 128"
    using b1 b2 by (simp_all add: order_amount_def bid_spread_def ask_spread_def)
qed

lemma dec_round_fraction:
  assumes "\<bar>m\<bar> < 10 ^ 28" "n \<le> 1000026"
  shows "dec_round (of_int m / 10 ^ n) = of_int m / 10 ^ n"
proof -
  have "(10::real) powr of_int (- int n) = 1 / 10 ^ n"
    by (simp add: powr_minus_divide powr_realpow)
  then show ?thesis
    using dec_round_representable [of m "- int n"] assms by simp
qed

lemma dec_round_int: "\<bar>m\<bar> < 10 ^ 28 \<Longrightarrow> dec_round (of_int m) = of_int m"
  using dec_round_fraction [of m 0] by simp

lemma dec_round_minus [simp]: "dec_round (- x) = - dec_round x"
  unfolding dec_round_def by (rule round_to_minus)

lemma dec_round_small_values [simp]:
  "dec_round 1 = 1" "dec_round 2 = 2" "dec_round 99 = 99" "dec_round 100 = 100"
  "dec_round 101 = 101" "dec_round 200 = 200"
  "dec_round (1 / 2) = 1 / 2" "dec_round (3 / 2) = 3 / 2" "dec_round (1 / 100) = 1 / 100"
  "dec_round (99 / 100) = 99 / 100" "dec_round (101 / 100) = 101 / 100"
  "dec_round (1 / 10000) = 1 / 10000"
  using dec_round_int [of 1] dec_round_int [of 2] dec_round_int [of 99] dec_round_int [of 100]
    dec_round_int [of 101] dec_round_int [of 200]
    dec_round_fraction [of 5 1] dec_round_fraction [of 15 1] dec_round_fraction [of 1 2]
    dec_round_fraction [of 99 2] dec_round_fraction [of 101 2] dec_round_fraction [of 1 4]
  by simp_all

section \<open>Properties of the tick\<close>

lemma calculate_volatility_not_nan: "\<not> np_isnan (calculate_volatility prices)"
  by (simp add: calculate_volatility_def Let_def)

lemma scaled_quote_total:
  assumes "\<not> np_isnan v"
  shows "\<exists>base_amount bid ask. scaled_quote (scale_of v) = Some (base_amount, bid, ask)
           \<and> 1 / 256 \<le> base_amount \<and> base_amount \<le> 3 / 128
           \<and> 1 / 256 \<le> bid \<and> bid \<le> 3 / 128 \<and> 1 / 256 \<le> ask \<and> ask \<le> 3 / 128"
proof -
  obtain s where s: "scale_of v = Fin s" "1 / 2 \<le> s" "s \<le> 3 / 2"
    using scale_of_range [OF assms] by blast
  show ?thesis
    unfolding s(1) using scaled_quote_scale [OF s(2,3)] by blast
qed

lemma tick_quote_total: "\<exists>q. scaled_quote (tick_scale conn self) = Some q"
  unfolding tick_scale_def
  using scaled_quote_total [OF calculate_volatility_not_nan] by blast

lemma split_trading_pair: "split_on CHR ''-'' trading_pair = [''BTC'', ''USDT'']"
  by (simp add: trading_pair_def)

lemma length_deque_append:
  "length (deque_append n xs x) = (if n < Suc (length xs) then length xs else Suc (length xs))"
  by (simp add: deque_append_def Let_def)

lemma deque_append_short: "length (deque_append n xs x) < n \<Longrightarrow> deque_append n xs x = xs @ [x]"
  by (auto simp: deque_append_def Let_def split: if_splits)

lemma on_tick_warming:
  assumes "length (tick_prices conn self) < maxlen"
  shows "on_tick conn self =
           Inr (self\<lparr>ref_prices := tick_prices conn self\<rparr>,
                [Logger_info (length (tick_prices conn self)) maxlen])"
  using assms by (simp add: on_tick_def tick_prices_def Let_def)

lemma on_tick_full:
  assumes full: "\<not> length (tick_prices conn self) < maxlen"
    and q: "scaled_quote (tick_scale conn self) = Some q"
  shows "on_tick conn self =
           (if tick_total_value conn = 0 then
              Inr (self\<lparr>ref_prices := tick_prices conn self\<rparr>, [Logger_warning])
            else if create_timestamp self \<le> current_timestamp conn then
              Inr (self\<lparr>ref_prices := tick_prices conn self,
                         create_timestamp := fl (current_timestamp conn + order_refresh_time)\<rparr>,
                   cancel_all_orders conn @ [Adjust_candidates (tick_proposal conn q) True]
                     @ place_orders (adjust_candidates conn (tick_proposal conn q) True))
            else Inr (self\<lparr>ref_prices := tick_prices conn self\<rparr>, []))"
proof -
  obtain b s a where qq: "q = (b, s, a)" by (cases q) auto
  show ?thesis
    using full q
    unfolding on_tick_def tick_prices_def tick_total_value_def tick_proposal_def tick_scale_def qq
    by (simp add: Let_def split_trading_pair split: prod.splits)
qed

lemma on_tick_skip:
  assumes "\<not> length (tick_prices conn self) < maxlen" "tick_total_value conn = 0"
  shows "on_tick conn self = Inr (self\<lparr>ref_prices := tick_prices conn self\<rparr>, [Logger_warning])"
proof -
  obtain q where "scaled_quote (tick_scale conn self) = Some q"
    using tick_quote_total by blast
  then show ?thesis using assms by (simp add: on_tick_full)
qed

lemma on_tick_idle:
  assumes "\<not> length (tick_prices conn self) < maxlen" "tick_total_value conn \<noteq> 0"
    "current_timestamp conn < create_timestamp self"
  shows "on_tick conn self = Inr (self\<lparr>ref_prices := tick_prices conn self\<rparr>, [])"
proof -
  obtain q where "scaled_quote (tick_scale conn self) = Some q"
    using tick_quote_total by blast
  then show ?thesis using assms by (simp add: on_tick_full)
qed

lemma on_tick_refresh:
  assumes "\<not> length (tick_prices conn self) < maxlen" "tick_total_value conn \<noteq> 0"
    "create_timestamp self \<le> current_timestamp conn"
  shows "\<exists>q. scaled_quote (tick_scale conn self) = Some q \<and>
           on_tick conn self =
             Inr (self\<lparr>ref_prices := tick_prices conn self,
                        create_timestamp := fl (current_timestamp conn + order_refresh_time)\<rparr>,
                  cancel_all_orders conn @ [Adjust_candidates (tick_proposal conn q) True]
                    @ place_orders (adjust_candidates conn (tick_proposal conn q) True))"
proof -
  obtain q where q: "scaled_quote (tick_scale conn self) = Some q"
    using tick_quote_total by blast
  then show ?thesis using assms by (auto simp: on_tick_full)
qed

text \<open>The tick always returns: none of its float products is an infinity or NaN.\<close>

lemma on_tick_total: "\<exists>self' calls. on_tick conn self = Inr (self', calls)"
proof (cases "length (tick_prices conn self) < maxlen")
  case True
  then show ?thesis by (simp add: on_tick_warming)
next
  case False
  obtain q where "scaled_quote (tick_scale conn self) = Some q"
    using tick_quote_total by blast
  then show ?thesis using False by (simp add: on_tick_full)
qed

lemma floor_amounts_ge:
  "min_order \<le> fst (floor_amounts amounts)" "min_order \<le> snd (floor_amounts amounts)"
  by (simp_all add: floor_amounts_def split: prod.splits)

lemma create_proposal_eq:
  "create_proposal ref_price bid ask buy_amount sell_amount =
     [\<lparr>oc_trading_pair = trading_pair, oc_is_maker = True, oc_order_type = LIMIT,
       oc_order_side = BUY, oc_amount = buy_amount,
       oc_price = dec_mul ref_price (dec_sub 1 (dec_div bid 100))\<rparr>,
      \<lparr>oc_trading_pair = trading_pair, oc_is_maker = True, oc_order_type = LIMIT,
       oc_order_side = SELL, oc_amount = sell_amount,
       oc_price = dec_mul ref_price (dec_add 1 (dec_div ask 100))\<rparr>]"
  by (simp add: create_proposal_def Let_def)

lemma tick_proposal_eq:
  "tick_proposal conn (base_amount, bid, ask) =
     create_proposal (get_price_by_type conn trading_pair price_source) bid ask
       (fst (floor_amounts (skew_amounts base_amount
          (inventory_skew_of
             (dec_mul (get_balance conn ''BTC'') (get_price_by_type conn trading_pair price_source))
             (tick_total_value conn)))))
       (snd (floor_amounts (skew_amounts base_amount
          (inventory_skew_of
             (dec_mul (get_balance conn ''BTC'') (get_price_by_type conn trading_pair price_source))
             (tick_total_value conn)))))"
  by (simp add: tick_proposal_def Let_def split: prod.splits)

lemma tick_prices_stay_full:
  assumes "\<not> length (tick_prices conn1 self) < maxlen"
  shows "\<not> length (tick_prices conn2 (self\<lparr>ref_prices := tick_prices conn1 self\<rparr>)) < maxlen"
  using assms by (simp add: tick_prices_def length_deque_append split: if_splits)

lemma market_at_simps:
  "get_price_by_type (market_at p btc usdt now) pair kind = p"
  "get_balance (market_at p btc usdt now) ''BTC'' = btc"
  "get_balance (market_at p btc usdt now) ''USDT'' = usdt"
  "current_timestamp (market_at p btc usdt now) = now"
  "adjust_candidates (market_at p btc usdt now) proposal b = proposal"
  by (simp_all add: market_at_def)

lemma market_at_tick_prices:
  "tick_prices (market_at p btc usdt now) self = deque_append maxlen (ref_prices self) p"
  by (simp add: tick_prices_def market_at_def)

lemma deque_append_replicate:
  "deque_append maxlen (replicate 9 x) x = replicate 10 x"
  "deque_append maxlen (replicate 10 x) x = replicate 10 x"
  by (simp_all add: deque_append_def maxlen_def Let_def numeral_eq_Suc)

lemma example_window:
  "tick_prices (market_at 100 1 100 now) \<lparr>ref_prices = replicate 9 100, create_timestamp = t\<rparr>
     = replicate 10 100"
  "tick_prices (market_at 100 1 100 now) \<lparr>ref_prices = replicate 10 100, create_timestamp = t\<rparr>
     = replicate 10 100"
  "tick_prices (market_at 101 1 100 now) \<lparr>ref_prices = replicate 10 100, create_timestamp = t\<rparr>
     = replicate 9 100 @ [101]"
  by (simp_all add: market_at_tick_prices deque_append_replicate)
    (simp add: deque_append_def maxlen_def Let_def numeral_eq_Suc)

lemma example_total_value:
  "tick_total_value (market_at 100 1 100 now) = 200"
  "tick_total_value (market_at 101 1 100 now) = 201"
  "tick_total_value (market_at 100 0 0 now) = 0"
  using dec_round_int [of 201]
  by (simp_all add: tick_total_value_def market_at_simps dec_add_def dec_mul_def)

section \<open>Claims\<close>




text \<open>
  C3.  Whatever the skew formulas yield, also zero or a negative amount, both floored
  amounts are at least \<open>min_order = 0.0001\<close>.  On every tick on which the allocator runs
  (full window, total value not zero), the proposal handed to the budget checker, if
  the tick builds one, is the proposal of that tick: one buy and one sell order whose
  amounts are both at least \<open>0.0001\<close>.
\<close>

theorem amounts_at_least_min_order:
  "min_order = 0.0001
   \<and> min_order \<le> fst (floor_amounts (skew_amounts base_amount inventory_skew))
   \<and> min_order \<le> snd (floor_amounts (skew_amounts base_amount inventory_skew))
   \<and> (\<not> length (tick_prices conn self) < maxlen \<and> tick_total_value conn \<noteq> 0 \<longrightarrow>
        (\<exists>self' calls. on_tick conn self = Inr (self', calls) \<and>
           (\<forall>proposal all_or_none. Adjust_candidates proposal all_or_none \<in> set calls \<longrightarrow>
              (\<exists>buy_order sell_order. proposal = [buy_order, sell_order]
                 \<and> oc_order_side buy_order = BUY \<and> oc_order_side sell_order = SELL
                 \<and> 0.0001 \<le> oc_amount buy_order \<and> 0.0001 \<le> oc_amount sell_order))))"
proof (intro conjI impI)
  show "min_order = 0.0001" by (simp add: min_order_def)
  show "min_order \<le> fst (floor_amounts (skew_amounts base_amount inventory_skew))"
    by (rule floor_amounts_ge)
  show "min_order \<le> snd (floor_amounts (skew_amounts base_amount inventory_skew))"
    by (rule floor_amounts_ge)
next
  assume a: "\<not> length (tick_prices conn self) < maxlen \<and> tick_total_value conn \<noteq> 0"
  have shape: "\<exists>buy_order sell_order. tick_proposal conn q = [buy_order, sell_order]
      \<and> oc_order_side buy_order = BUY \<and> oc_order_side sell_order = SELL
      \<and> 0.0001 \<le> oc_amount buy_order \<and> 0.0001 \<le> oc_amount sell_order" for q
  proof -
    obtain b s a where qq: "q = (b, s, a)" by (cases q) auto
    show ?thesis
      unfolding qq using floor_amounts_ge [unfolded min_order_def]
      by (simp add: tick_proposal_eq create_proposal_eq)
  qed
  have no_adjust: "Adjust_candidates p b \<notin> set (cancel_all_orders conn)"
    "Adjust_candidates p b \<notin> set (place_orders q)" for p b q
    by (auto simp: cancel_all_orders_def place_orders_def place_order_def)
  show "\<exists>self' calls. on_tick conn self = Inr (self', calls) \<and>
      (\<forall>proposal all_or_none. Adjust_candidates proposal all_or_none \<in> set calls \<longrightarrow>
         (\<exists>buy_order sell_order. proposal = [buy_order, sell_order]
            \<and> oc_order_side buy_order = BUY \<and> oc_order_side sell_order = SELL
            \<and> 0.0001 \<le> oc_amount buy_order \<and> 0.0001 \<le> oc_amount sell_order))"
  proof (cases "create_timestamp self \<le> current_timestamp conn")
    case True
    with a on_tick_refresh [of conn self] obtain q where
      "on_tick conn self =
         Inr (self\<lparr>ref_prices := tick_prices conn self,
                    create_timestamp := fl (current_timestamp conn + order_refresh_time)\<rparr>,
              cancel_all_orders conn @ [Adjust_candidates (tick_proposal conn q) True]
                @ place_orders (adjust_candidates conn (tick_proposal conn q) True))"
      by blast
    then show ?thesis using shape [of q] no_adjust by auto
  next
    case False
    with a have "on_tick conn self = Inr (self\<lparr>ref_prices := tick_prices conn self\<rparr>, [])"
      by (simp add: on_tick_idle)
    then show ?thesis by simp
  qed
qed

theorem amounts_at_least_min_order_witness:
  "fst (skew_amounts 1 1) < 0
   \<and> 0.0001 \<le> fst (floor_amounts (skew_amounts 1 1))
   \<and> 0.0001 \<le> snd (floor_amounts (skew_amounts 1 1))
   \<and> (\<exists>self' calls buy_order sell_order.
         on_tick (market_at 100 1 100 50) \<lparr>ref_prices = replicate 9 100, create_timestamp = 0\<rparr>
           = Inr (self', calls)
         \<and> Adjust_candidates [buy_order, sell_order] True \<in> set calls
         \<and> 0.0001 \<le> oc_amount buy_order \<and> 0.0001 \<le> oc_amount sell_order)"
proof -
  let ?C = "market_at 100 1 100 50"
  let ?S = "\<lparr>ref_prices = replicate 9 100, create_timestamp = 0\<rparr>"
  note t = amounts_at_least_min_order [of 1 1 ?C ?S]
  have neg: "fst (skew_amounts 1 1) < 0"
    by (simp add: skew_amounts_def Let_def dec_mul_def dec_sub_def)
  have fl: "0.0001 \<le> fst (floor_amounts (skew_amounts 1 1))"
    "0.0001 \<le> snd (floor_amounts (skew_amounts 1 1))"
    using t by simp_all
  have run_cond: "\<not> length (tick_prices ?C ?S) < maxlen \<and> tick_total_value ?C \<noteq> 0"
    by (simp add: example_window example_total_value maxlen_def)
  from t [THEN conjunct2, THEN conjunct2, THEN conjunct2, THEN mp, OF run_cond]
  obtain self' calls where run: "on_tick ?C ?S = Inr (self', calls)"
    and all: "\<forall>proposal all_or_none. Adjust_candidates proposal all_or_none \<in> set calls \<longrightarrow>
        (\<exists>buy_order sell_order. proposal = [buy_order, sell_order]
           \<and> oc_order_side buy_order = BUY \<and> oc_order_side sell_order = SELL
           \<and> 0.0001 \<le> oc_amount buy_order \<and> 0.0001 \<le> oc_amount sell_order)"
    by blast
  have "\<exists>proposal. Adjust_candidates proposal True \<in> set calls"
    using run on_tick_refresh [of ?C ?S] run_cond
    by (auto simp: market_at_simps)
  then obtain proposal where "Adjust_candidates proposal True \<in> set calls" ..
  with all obtain buy_order sell_order where
    "Adjust_candidates [buy_order, sell_order] True \<in> set calls"
    "0.0001 \<le> oc_amount buy_order" "0.0001 \<le> oc_amount sell_order"
    by blast
  with run neg fl show ?thesis by blast
qed

text \<open>
  C5.  On a tick with a full window whose total portfolio value
  \<open>base_balance \<times> mid_price + quote_balance\<close>, as line 53 computes it, is zero, \<open>on_tick\<close>
  returns normally: it has appended the price and logged the warning, and nothing else.
  No proposal is built, no order is cancelled or placed, and \<open>create_timestamp\<close> keeps its
  value.  For balances and a price that are not negative the computed total is zero
  whenever the exact one is.
\<close>

theorem on_tick_zero_value:
  assumes "\<not> length (tick_prices conn self) < maxlen"
    and "dec_add (dec_mul (get_balance conn ''BTC'')
                    (get_price_by_type conn trading_pair price_source))
           (get_balance conn ''USDT'') = 0
         \<or> 0 \<le> get_balance conn ''BTC'' \<and> 0 \<le> get_balance conn ''USDT''
           \<and> 0 \<le> get_price_by_type conn trading_pair price_source
           \<and> get_balance conn ''BTC'' * get_price_by_type conn trading_pair price_source
               + get_balance conn ''USDT'' = 0"
  shows "on_tick conn self = Inr (self\<lparr>ref_prices := tick_prices conn self\<rparr>, [Logger_warning])
    \<and> (\<exists>self' calls. on_tick conn self = Inr (self', calls)
          \<and> create_timestamp self' = create_timestamp self
          \<and> \<not> list_ex order_call calls)"
proof -
  let ?b = "get_balance conn ''BTC''" and ?u = "get_balance conn ''USDT''"
  let ?p = "get_price_by_type conn trading_pair price_source"
  have "tick_total_value conn = 0"
    using assms(2)
  proof
    assume "dec_add (dec_mul ?b ?p) ?u = 0"
    then show ?thesis by (simp add: tick_total_value_def)
  next
    assume e: "0 \<le> ?b \<and> 0 \<le> ?u \<and> 0 \<le> ?p \<and> ?b * ?p + ?u = 0"
    then have "0 \<le> ?b * ?p" by simp
    with e have z: "?b * ?p = 0" "?u = 0" by linarith+
    show ?thesis unfolding tick_total_value_def dec_add_def dec_mul_def z by simp
  qed
  with assms(1) have "on_tick conn self =
      Inr (self\<lparr>ref_prices := tick_prices conn self\<rparr>, [Logger_warning])"
    by (rule on_tick_skip)
  then show ?thesis by simp
qed

theorem on_tick_zero_value_witness:
  "on_tick (market_at 100 0 0 50) \<lparr>ref_prices = replicate 9 100, create_timestamp = 0\<rparr>
     = Inr (\<lparr>ref_prices = replicate 10 100, create_timestamp = 0\<rparr>, [Logger_warning])"
proof -
  let ?s = "\<lparr>ref_prices = replicate 9 100, create_timestamp = 0\<rparr>"
  have full: "\<not> length (tick_prices (market_at 100 0 0 50) ?s) < maxlen"
    by (simp add: market_at_tick_prices length_deque_append maxlen_def)
  have zero: "dec_add (dec_mul (get_balance (market_at 100 0 0 50) ''BTC'')
                    (get_price_by_type (market_at 100 0 0 50) trading_pair price_source))
           (get_balance (market_at 100 0 0 50) ''USDT'') = 0
         \<or> 0 \<le> get_balance (market_at 100 0 0 50) ''BTC''
           \<and> 0 \<le> get_balance (market_at 100 0 0 50) ''USDT''
           \<and> 0 \<le> get_price_by_type (market_at 100 0 0 50) trading_pair price_source
           \<and> get_balance (market_at 100 0 0 50) ''BTC''
               * get_price_by_type (market_at 100 0 0 50) trading_pair price_source
               + get_balance (market_at 100 0 0 50) ''USDT'' = 0"
    by (simp add: market_at_simps)
  show ?thesis
    using on_tick_zero_value [OF full zero, THEN conjunct1]
    by (simp add: market_at_tick_prices deque_append_replicate)
qed

text \<open>
  C6.  On a tick after which the window holds fewer than \<open>maxlen = 10\<close> prices, \<open>on_tick\<close>
  only appends the price and logs the progress line.  No proposal is built, no order is
  cancelled or placed, and nothing else of the state changes.
\<close>

theorem on_tick_warming_up:
  assumes "length (tick_prices conn self) < maxlen"
  shows "maxlen = 10
    \<and> on_tick conn self =
        Inr (self\<lparr>ref_prices :=
                    ref_prices self @ [get_price_by_type conn trading_pair price_source]\<rparr>,
             [Logger_info (length (ref_prices self) + 1) 10])
    \<and> (\<exists>self' calls. on_tick conn self = Inr (self', calls)
          \<and> create_timestamp self' = create_timestamp self
          \<and> \<not> list_ex order_call calls)"
proof -
  have p: "tick_prices conn self
      = ref_prices self @ [get_price_by_type conn trading_pair price_source]"
    using assms unfolding tick_prices_def by (rule deque_append_short)
  have "on_tick conn self =
      Inr (self\<lparr>ref_prices := tick_prices conn self\<rparr>,
           [Logger_info (length (tick_prices conn self)) maxlen])"
    using assms by (rule on_tick_warming)
  then show ?thesis by (simp add: p maxlen_def)
qed

theorem on_tick_warming_up_witness:
  "on_tick (market_at 100 1 100 50) CustomPMM
     = Inr (\<lparr>ref_prices = [100], create_timestamp = 0\<rparr>, [Logger_info 1 10])"
proof -
  have "length (tick_prices (market_at 100 1 100 50) CustomPMM) < maxlen"
    by (simp add: market_at_tick_prices CustomPMM_def length_deque_append maxlen_def)
  from on_tick_warming_up [OF this, THEN conjunct2, THEN conjunct1]
  show ?thesis by (simp add: market_at_simps CustomPMM_def)
qed

text \<open>
  C7.  \<open>create_timestamp\<close> changes only on a tick that runs the proposal cycle (full
  window, total value not zero, timer elapsed): that tick cancels, builds and adjusts the
  proposal, places the adjusted orders and then sets \<open>create_timestamp\<close> to the float sum
  of the current time and \<open>order_refresh_time = 30\<close>, which is exactly the current time
  plus 30 whenever that is a float, as it is for every time in whole seconds below
  \<open>2\<^sup>5\<^sup>3 - 30\<close>.  Every other tick leaves it as it was and makes no order call, and
  \<open>did_fill_order\<close> leaves the whole state as it was.
\<close>

theorem refresh_timestamp:
  "order_refresh_time = 30
   \<and> (\<exists>self' calls. on_tick conn self = Inr (self', calls) \<and>
        (if \<not> length (tick_prices conn self) < maxlen \<and> tick_total_value conn \<noteq> 0
              \<and> create_timestamp self \<le> current_timestamp conn
         then create_timestamp self' = fl (current_timestamp conn + 30)
              \<and> (fl (current_timestamp conn + 30) = current_timestamp conn + 30
                    \<longrightarrow> create_timestamp self' = current_timestamp conn + 30)
              \<and> (\<forall>n. current_timestamp conn = of_int n \<and> \<bar>n + 30\<bar> < 2 ^ 53
                    \<longrightarrow> create_timestamp self' = current_timestamp conn + 30)
              \<and> (\<exists>q. scaled_quote (tick_scale conn self) = Some q
                      \<and> calls = cancel_all_orders conn
                          @ [Adjust_candidates (tick_proposal conn q) True]
                          @ place_orders (adjust_candidates conn (tick_proposal conn q) True))
         else create_timestamp self' = create_timestamp self \<and> \<not> list_ex order_call calls))
   \<and> fst (did_fill_order event self) = self"
proof (intro conjI)
  show "order_refresh_time = 30" by (simp add: order_refresh_time_def)
  show "fst (did_fill_order event self) = self" by (simp add: did_fill_order_def)
  have whole: "fl (current_timestamp conn + 30) = current_timestamp conn + 30"
    if "current_timestamp conn = of_int n \<and> \<bar>n + 30\<bar> < 2 ^ 53" for n
    using that fl_int [of "n + 30"] by simp
  show "\<exists>self' calls. on_tick conn self = Inr (self', calls) \<and>
        (if \<not> length (tick_prices conn self) < maxlen \<and> tick_total_value conn \<noteq> 0
              \<and> create_timestamp self \<le> current_timestamp conn
         then create_timestamp self' = fl (current_timestamp conn + 30)
              \<and> (fl (current_timestamp conn + 30) = current_timestamp conn + 30
                    \<longrightarrow> create_timestamp self' = current_timestamp conn + 30)
              \<and> (\<forall>n. current_timestamp conn = of_int n \<and> \<bar>n + 30\<bar> < 2 ^ 53
                    \<longrightarrow> create_timestamp self' = current_timestamp conn + 30)
              \<and> (\<exists>q. scaled_quote (tick_scale conn self) = Some q
                      \<and> calls = cancel_all_orders conn
                          @ [Adjust_candidates (tick_proposal conn q) True]
                          @ place_orders (adjust_candidates conn (tick_proposal conn q) True))
         else create_timestamp self' = create_timestamp self \<and> \<not> list_ex order_call calls)"
  proof (cases "length (tick_prices conn self) < maxlen")
    case True
    then show ?thesis by (simp add: on_tick_warming)
  next
    case full: False
    show ?thesis
    proof (cases "tick_total_value conn = 0")
      case True
      with full show ?thesis by (simp add: on_tick_skip)
    next
      case nz: False
      show ?thesis
      proof (cases "create_timestamp self \<le> current_timestamp conn")
        case True
        with full nz on_tick_refresh [of conn self] obtain q where
          "scaled_quote (tick_scale conn self) = Some q"
          "on_tick conn self =
             Inr (self\<lparr>ref_prices := tick_prices conn self,
                        create_timestamp := fl (current_timestamp conn + order_refresh_time)\<rparr>,
                  cancel_all_orders conn @ [Adjust_candidates (tick_proposal conn q) True]
                    @ place_orders (adjust_candidates conn (tick_proposal conn q) True))"
          by blast
        with full nz True whole show ?thesis by (auto simp: order_refresh_time_def)
      next
        case False
        with full nz show ?thesis by (simp add: on_tick_idle)
      qed
    qed
  qed
qed

theorem refresh_timestamp_witness:
  "order_refresh_time = 30
   \<and> (\<exists>self' calls.
         on_tick (market_at 100 1 100 50) \<lparr>ref_prices = replicate 9 100, create_timestamp = 0\<rparr>
           = Inr (self', calls)
         \<and> create_timestamp self' = 80)
   \<and> (\<exists>self' calls.
         on_tick (market_at 100 1 100 50) \<lparr>ref_prices = replicate 10 100, create_timestamp = 80\<rparr>
           = Inr (self', calls)
         \<and> create_timestamp self' = 80 \<and> \<not> list_ex order_call calls)"
proof -
  let ?C = "market_at 100 1 100 50"
  have f80: "fl 80 = 80" using fl_int [of 80] by simp
  have "order_refresh_time = 30"
    using refresh_timestamp [of ?C "\<lparr>ref_prices = [], create_timestamp = 0\<rparr>"] by blast
  moreover have "\<exists>self' calls.
      on_tick ?C \<lparr>ref_prices = replicate 9 100, create_timestamp = 0\<rparr> = Inr (self', calls)
      \<and> create_timestamp self' = 80"
    using refresh_timestamp [of ?C "\<lparr>ref_prices = replicate 9 100, create_timestamp = 0\<rparr>"]
    by (simp add: example_window example_total_value market_at_simps maxlen_def f80) blast
  moreover have "\<exists>self' calls.
      on_tick ?C \<lparr>ref_prices = replicate 10 100, create_timestamp = 80\<rparr> = Inr (self', calls)
      \<and> create_timestamp self' = 80 \<and> \<not> list_ex order_call calls"
    using refresh_timestamp [of ?C "\<lparr>ref_prices = replicate 10 100, create_timestamp = 80\<rparr>"]
    by (simp add: example_window example_total_value market_at_simps maxlen_def)
  ultimately show ?thesis by blast
qed

text \<open>
  C8.  On a tick with a full window, a total value other than zero and a current time
  strictly before \<open>create_timestamp\<close>, \<open>on_tick\<close> makes no call at all, so no cancel and no
  submit, and leaves \<open>create_timestamp\<close> as it was.  A second such tick right after the
  first does the same.
\<close>

theorem idle_ticks_touch_no_orders:
  assumes "\<not> length (tick_prices conn1 self) < maxlen"
    and "tick_total_value conn1 \<noteq> 0" and "current_timestamp conn1 < create_timestamp self"
    and "tick_total_value conn2 \<noteq> 0" and "current_timestamp conn2 < create_timestamp self"
  shows "\<exists>self1 self2.
           on_tick conn1 self = Inr (self1, [])
         \<and> create_timestamp self1 = create_timestamp self
         \<and> on_tick conn2 self1 = Inr (self2, [])
         \<and> create_timestamp self2 = create_timestamp self"
proof -
  let ?s1 = "self\<lparr>ref_prices := tick_prices conn1 self\<rparr>"
  have one: "on_tick conn1 self = Inr (?s1, [])"
    using assms(1-3) by (rule on_tick_idle)
  have full2: "\<not> length (tick_prices conn2 ?s1) < maxlen"
    using assms(1) by (rule tick_prices_stay_full)
  have "on_tick conn2 ?s1 = Inr (?s1\<lparr>ref_prices := tick_prices conn2 ?s1\<rparr>, [])"
    using full2 assms(4,5) by (intro on_tick_idle) simp_all
  with one show ?thesis by simp
qed

theorem idle_ticks_touch_no_orders_witness:
  "\<exists>self1 self2.
     on_tick (market_at 100 1 100 50) \<lparr>ref_prices = replicate 10 100, create_timestamp = 80\<rparr>
       = Inr (self1, [])
     \<and> create_timestamp self1 = 80
     \<and> on_tick (market_at 101 1 100 51) self1 = Inr (self2, [])
     \<and> create_timestamp self2 = 80"
proof -
  let ?S = "\<lparr>ref_prices = replicate 10 100, create_timestamp = 80\<rparr>"
  have "\<exists>self1 self2.
     on_tick (market_at 100 1 100 50) ?S = Inr (self1, [])
     \<and> create_timestamp self1 = create_timestamp ?S
     \<and> on_tick (market_at 101 1 100 51) self1 = Inr (self2, [])
     \<and> create_timestamp self2 = create_timestamp ?S"
    by (rule idle_ticks_touch_no_orders)
      (simp_all add: example_window example_total_value market_at_simps maxlen_def)
  then show ?thesis by simp
qed

end
